theory Spec2Isabelle
  imports Complex_Main "HOL-Library.Word"
begin

unbundle bit_operations_syntax

section \<open>Data model\<close>

text \<open>
  The request lifecycle (\<^verbatim>\<open>ProxyRequestContext-inl.h\<close>) and the statistics engine
  (\<^verbatim>\<open>stats.cpp\<close>) of mcrouter, as a shallow embedding.

  \<^item> \<^verbatim>\<open>uint64_t\<close>, \<^verbatim>\<open>int64_t\<close>, \<^verbatim>\<open>size_t\<close> and \<^verbatim>\<open>unsigned long\<close> are 64-bit words:
    \<open>+\<close> wraps around, \<open>\<le>\<close> and \<open>max\<close> compare unsigned.
  \<^item> \<^verbatim>\<open>double\<close> is a type parameter \<open>'d\<close>; its arithmetic and its representation in
    64 bits are the record \<open>dbl_ops\<close> of operations, which every function that computes
    on doubles takes as its first argument. Nothing is assumed of these operations, so
    that a theorem holds for IEEE arithmetic as for any other.
  \<^item> A pointer to a C string is its 64-bit address, 0 for \<^verbatim>\<open>nullptr\<close>.
  \<^item> An array indexed by an enumeration is a function from the enumeration.
  \<^item> The enumerators and constants of headers that are not part of the two files are
    parameters (the records \<open>stat_groups\<close>, \<open>hdr\<close> and \<open>mc_lib\<close>).
\<close>

type_synonym uint64_t = "64 word"
type_synonym int64_t = "64 word"

record 'd dbl_ops =
  d_of_u64 :: "uint64_t \<Rightarrow> 'd"      \<comment> \<open>conversion of an unsigned 64-bit value\<close>
  d_of_int :: "int \<Rightarrow> 'd"           \<comment> \<open>conversion of a signed integer; literals\<close>
  d_add :: "'d \<Rightarrow> 'd \<Rightarrow> 'd"
  d_mul :: "'d \<Rightarrow> 'd \<Rightarrow> 'd"
  d_div :: "'d \<Rightarrow> 'd \<Rightarrow> 'd"
  d_less :: "'d \<Rightarrow> 'd \<Rightarrow> bool"
  d_le :: "'d \<Rightarrow> 'd \<Rightarrow> bool"
  d_infinity :: "'d"
  d_bits :: "'d \<Rightarrow> uint64_t"        \<comment> \<open>the 64 bits that store a double\<close>
  d_of_bits :: "uint64_t \<Rightarrow> 'd"     \<comment> \<open>the double that 64 bits are read as\<close>

text \<open>\<^verbatim>\<open>std::max(a, b)\<close> is \<^verbatim>\<open>(a < b) ? b : a\<close> and \<^verbatim>\<open>std::min(a, b)\<close> is
  \<^verbatim>\<open>(b < a) ? b : a\<close>.\<close>

definition d_max :: "'d dbl_ops \<Rightarrow> 'd \<Rightarrow> 'd \<Rightarrow> 'd" where
  "d_max D a b = (if d_less D a b then b else a)"

definition d_min :: "'d dbl_ops \<Rightarrow> 'd \<Rightarrow> 'd \<Rightarrow> 'd" where
  "d_min D a b = (if d_less D b a then b else a)"

text \<open>The members of \<^verbatim>\<open>stat_name_t\<close> that the two files name; \<open>other_stat n\<close> stands
  for the remaining entries of \<^verbatim>\<open>stat_list.h\<close>.\<close>

datatype stat_name_t =
    config_last_success_stat
  | destination_batches_sum_stat
  | destination_requests_sum_stat
  | outstanding_route_get_reqs_queued_stat
  | outstanding_route_get_reqs_queued_helper_stat
  | outstanding_route_get_wait_time_sum_us_stat
  | outstanding_route_update_reqs_queued_stat
  | outstanding_route_update_reqs_queued_helper_stat
  | outstanding_route_update_wait_time_sum_us_stat
  | retrans_per_kbyte_sum_stat
  | retrans_num_total_stat
  | num_suspect_servers_stat
  | destination_batch_size_stat
  | retrans_per_kbyte_avg_stat
  | outstanding_route_get_avg_queue_size_stat
  | outstanding_route_get_avg_wait_time_sec_stat
  | outstanding_route_update_avg_queue_size_stat
  | outstanding_route_update_avg_wait_time_sec_stat
  | commandargs_stat
  | time_stat
  | start_time_stat
  | uptime_stat
  | config_age_stat
  | config_last_attempt_stat
  | config_failures_stat
  | pid_stat
  | parent_pid_stat
  | rusage_user_stat
  | rusage_system_stat
  | ps_num_minor_faults_stat
  | ps_num_major_faults_stat
  | ps_user_time_sec_stat
  | ps_system_time_sec_stat
  | ps_rss_stat
  | ps_vsize_stat
  | fibers_allocated_stat
  | fibers_pool_size_stat
  | fibers_stack_high_watermark_stat
  | duration_us_stat
  | client_queue_notify_period_stat
  | request_replied_stat
  | request_replied_count_stat
  | request_error_stat
  | request_error_count_stat
  | request_success_stat
  | request_success_count_stat
  | other_stat nat

datatype stat_type_t = stat_string | stat_uint64 | stat_int64 | stat_double

text \<open>A slot. The union \<^verbatim>\<open>data\<close> is the 64 bits that its four members share: a write
  through one member is read through every other. \<^verbatim>\<open>data.uint64\<close> and \<^verbatim>\<open>data.int64\<close>
  are these bits, \<^verbatim>\<open>data.string\<close> is the address they hold, and \<^verbatim>\<open>data.dbl\<close> is the
  double they are read as.\<close>

record stat_t =
  name :: string
  group :: "32 word"
  type :: stat_type_t
  aggregate :: bool
  data :: "64 word"

definition data_string :: "stat_t \<Rightarrow> uint64_t" where
  "data_string s = data s"

definition data_uint64 :: "stat_t \<Rightarrow> uint64_t" where
  "data_uint64 s = data s"

definition data_int64 :: "stat_t \<Rightarrow> int64_t" where
  "data_int64 s = data s"

definition data_dbl :: "'d dbl_ops \<Rightarrow> stat_t \<Rightarrow> 'd" where
  "data_dbl D s = d_of_bits D (data s)"

type_synonym stats_table = "stat_name_t \<Rightarrow> stat_t"

datatype mc_res_t =
    mc_res_unknown
  | mc_res_bad_command
  | mc_res_local_error
  | mc_res_client_error
  | mc_res_other nat    \<comment> \<open>the result codes the two files do not name\<close>

datatype State = kUp | kNew | kClosed | kDown

record 'd ProxyDestination =
  tracker_isHardTko :: bool                       \<comment> \<open>\<^verbatim>\<open>tracker->isHardTko()\<close>\<close>
  tracker_isSoftTko :: bool                       \<comment> \<open>\<^verbatim>\<open>tracker->isSoftTko()\<close>\<close>
  stats_results :: "(mc_res_t \<Rightarrow> uint64_t) option"  \<comment> \<open>\<^verbatim>\<open>stats().results\<close>, may be null\<close>
  stats_state :: State
  stats_avgLatency :: "'d option"                 \<comment> \<open>\<^verbatim>\<open>hasValue()\<close>, \<^verbatim>\<open>value()\<close>\<close>
  stats_retransPerKByte :: "'d"
  getPendingRequestCount :: uint64_t
  getInflightRequestCount :: uint64_t

text \<open>A worker shard. \<open>destinationMap\<close> lists the destinations in the order in which
  \<^verbatim>\<open>foreachDestinationSynced\<close> visits them.\<close>

record 'd Proxy =
  stats :: stats_table
  stats_bin :: "stat_name_t \<Rightarrow> nat \<Rightarrow> uint64_t"
  stats_num_within_window :: "stat_name_t \<Rightarrow> uint64_t"
  num_bins_used :: int
  destinationMap :: "(string \<times> 'd ProxyDestination) list"
  fibersAllocated :: uint64_t
  fibersPoolSize :: uint64_t
  stackHighWatermark :: uint64_t
  durationUs :: "'d"
  queueNotifyPeriod :: "'d"
  being_destroyed :: bool

text \<open>The router instance. It is modelled by the list of its proxies:
  \<^verbatim>\<open>opts().num_proxies\<close> is the length of the list and \<^verbatim>\<open>getProxy(i)\<close> its \<open>i\<close>-th
  element, \<^verbatim>\<open>nullptr\<close> beyond it.\<close>

record 'd McrouterInstanceBase =
  proxies :: "'d Proxy list"
  startTime :: uint64_t
  lastConfigAttempt :: uint64_t
  configFailures :: uint64_t
  getSuspectServersCount :: uint64_t
  getSuspectServers :: "(string \<times> bool \<times> uint64_t) list"

definition num_proxies :: "'d McrouterInstanceBase \<Rightarrow> nat" where
  "num_proxies router = length (proxies router)"

definition getProxy :: "'d McrouterInstanceBase \<Rightarrow> nat \<Rightarrow> 'd Proxy option" where
  "getProxy router i = (if i < length (proxies router) then Some (proxies router ! i) else None)"

section \<open>Windowed counters: rate and peak\<close>

definition get_num_bins_used :: "'d McrouterInstanceBase \<Rightarrow> int" where
  "get_num_bins_used router =
     (if num_proxies router > 0 then
        (case getProxy router 0 of
           Some anyProxy \<Rightarrow> num_bins_used anyProxy
         | None \<Rightarrow> 0)
      else 0)"

text \<open>\<open>bin_sec\<close> is \<^verbatim>\<open>MOVING_AVERAGE_BIN_SIZE_IN_SECOND\<close>.\<close>

definition stats_aggregate_rate_value ::
    "'d dbl_ops \<Rightarrow> int \<Rightarrow> 'd McrouterInstanceBase \<Rightarrow> stat_name_t \<Rightarrow> 'd" where
  "stats_aggregate_rate_value D bin_sec router idx =
     (let num_bins = get_num_bins_used router in
      if num_bins \<noteq> 0 then
        (let num = fold (\<lambda>p num. num + stats_num_within_window p idx) (proxies router) 0
         in d_div D (d_of_u64 D num) (d_of_int D (num_bins * bin_sec)))
      else d_of_int D 0)"

definition stats_rate_value ::
    "'d dbl_ops \<Rightarrow> int \<Rightarrow> 'd McrouterInstanceBase \<Rightarrow> 'd Proxy \<Rightarrow> stat_name_t \<Rightarrow> 'd" where
  "stats_rate_value D bin_sec router proxy idx =
     (if num_bins_used proxy \<noteq> 0 then
        (if aggregate (stats proxy idx) then stats_aggregate_rate_value D bin_sec router idx
         else d_div D (d_of_u64 D (stats_num_within_window proxy idx))
                (d_of_int D (num_bins_used proxy * bin_sec)))
      else d_of_int D 0)"

definition stats_aggregate_max_value :: "'d McrouterInstanceBase \<Rightarrow> stat_name_t \<Rightarrow> uint64_t" where
  "stats_aggregate_max_value router idx =
     fold (\<lambda>j mx.
             (let binSum = fold (\<lambda>p binSum. binSum + stats_bin p idx j) (proxies router) 0
              in max mx binSum))
       [0 ..< nat (get_num_bins_used router)] 0"

definition stats_aggregate_max_max_value :: "'d McrouterInstanceBase \<Rightarrow> stat_name_t \<Rightarrow> uint64_t" where
  "stats_aggregate_max_max_value router idx =
     fold (\<lambda>j mx. fold (\<lambda>p mx. max mx (stats_bin p idx j)) (proxies router) mx)
       [0 ..< nat (get_num_bins_used router)] 0"

definition stats_max_value :: "'d McrouterInstanceBase \<Rightarrow> stat_name_t \<Rightarrow> uint64_t" where
  "stats_max_value router idx = stats_aggregate_max_value router idx"


section \<open>Faults\<close>

text \<open>What ends a call other than its return: a dereferenced null pointer, a failed
  \<^verbatim>\<open>assert\<close> and \<^verbatim>\<open>LOG(FATAL)\<close>. A fallible function returns \<open>Inl\<close> of the fault or
  \<open>Inr\<close> of its result.\<close>

datatype fault = NullDereference | AssertionFailed | FatalLog

definition and_then :: "fault + 'a \<Rightarrow> ('a \<Rightarrow> fault + 'b) \<Rightarrow> fault + 'b" where
  "and_then m f = (case m of Inl e \<Rightarrow> Inl e | Inr x \<Rightarrow> f x)"

section \<open>Request contexts\<close>

datatype mc_req_err_t = mc_req_err_valid | mc_req_err_other nat

text \<open>The functions of \<^verbatim>\<open>mcrouter/lib\<close> that the request context calls.\<close>

record mc_lib =
  mc_res_is_err :: "mc_res_t \<Rightarrow> bool"
  isKeyValid :: "string \<Rightarrow> mc_req_err_t"
  mc_req_err_to_string :: "mc_req_err_t \<Rightarrow> string"

text \<open>The request types that have a \<^verbatim>\<open>precheckRequest\<close> overload of their own, and
  \<open>McOtherRequest key\<close> for every other request type, checked through the template.
  A reply is its result code and its message; \<^verbatim>\<open>ReplyT<Request>(result)\<close> has the
  empty message, and \<^verbatim>\<open>sendReply(result)\<close> sends that reply.\<close>

datatype Request =
    McStatsRequest
  | McVersionRequest
  | McShutdownRequest
  | McFlushReRequest
  | McFlushAllRequest
  | McOtherRequest string

record Reply =
  result :: mc_res_t
  message :: string

text \<open>The fields of a context that the file reads and writes. \<^verbatim>\<open>recording()\<close> and
  \<^verbatim>\<open>replied_\<close> are members of the base class \<^verbatim>\<open>ProxyRequestContext\<close>.\<close>

record ProxyRequestContextTyped =
  recording :: bool              \<comment> \<open>\<^verbatim>\<open>recording()\<close>\<close>
  replied :: bool                \<comment> \<open>\<^verbatim>\<open>replied_\<close>\<close>
  req :: "Request option"        \<comment> \<open>\<^verbatim>\<open>req_\<close>, \<open>None\<close> for \<^verbatim>\<open>nullptr\<close>\<close>

text \<open>The state a context acts on: itself, its proxy, the router option it reads, and
  what it has done so far: the calls of the completion callback \<^verbatim>\<open>f_\<close> and of
  \<^verbatim>\<open>dispatchRequest\<close>, in order, and whether the context has been deleted.\<close>

record 'd exec =
  ctx :: ProxyRequestContextTyped
  proxy :: "'d Proxy"
  enable_flush_cmd :: bool
  f_calls :: "(Request \<times> Reply) list"
  dispatched :: "Request list"
  deleted :: bool

text \<open>Modelled from the spec: \<^verbatim>\<open>stat_incr\<close> is declared in \<^verbatim>\<open>stats.h\<close>; the spec's
  \<^verbatim>\<open>increment(slot, delta)\<close> adds \<open>delta\<close> to the slot's value. The addition is that of
  64-bit integers on the bits of the slot, as \<^verbatim>\<open>stat_incr_safe\<close> of \<^verbatim>\<open>stats.cpp\<close> adds to
  \<^verbatim>\<open>data.uint64\<close>: it is the same for an unsigned and for a signed slot.\<close>

definition stat_incr :: "stats_table \<Rightarrow> stat_name_t \<Rightarrow> uint64_t \<Rightarrow> stats_table" where
  "stat_incr tbl stat_num amount =
     tbl(stat_num := (tbl stat_num)\<lparr> data := data_uint64 (tbl stat_num) + amount \<rparr>)"

definition proxy_stat_incr :: "'d exec \<Rightarrow> stat_name_t \<Rightarrow> uint64_t \<Rightarrow> 'd exec" where
  "proxy_stat_incr s stat_num amount =
     s\<lparr> proxy := (proxy s)\<lparr> stats := stat_incr (stats (proxy s)) stat_num amount \<rparr> \<rparr>"

definition sendReplyImpl :: "'d exec \<Rightarrow> Reply \<Rightarrow> fault + 'd exec" where
  "sendReplyImpl s reply =
     (case req (ctx s) of
        None \<Rightarrow> Inl NullDereference
      | Some r \<Rightarrow> Inr (s\<lparr> f_calls := f_calls s @ [(r, reply)] \<rparr>))"

definition sendReply :: "mc_lib \<Rightarrow> 'd exec \<Rightarrow> Reply \<Rightarrow> fault + 'd exec" where
  "sendReply L s reply =
     (if recording (ctx s) then Inr s
      else if replied (ctx s) then Inr s
      else
        and_then (sendReplyImpl (s\<lparr> ctx := (ctx s)\<lparr> replied := True \<rparr> \<rparr>) reply) (\<lambda>s.
          (let s = s\<lparr> ctx := (ctx s)\<lparr> req := None \<rparr> \<rparr>;
               s = proxy_stat_incr s request_replied_stat 1;
               s = proxy_stat_incr s request_replied_count_stat 1
           in if mc_res_is_err L (result reply) then
                Inr (proxy_stat_incr (proxy_stat_incr s request_error_stat 1)
                       request_error_count_stat 1)
              else
                Inr (proxy_stat_incr (proxy_stat_incr s request_success_stat 1)
                       request_success_count_stat 1))))"

definition kCommandNotSupportedStr :: string where
  "kCommandNotSupportedStr = ''Command not supported''"

definition precheckKey :: "mc_lib \<Rightarrow> 'd exec \<Rightarrow> string \<Rightarrow> fault + ('d exec \<times> bool)" where
  "precheckKey L preq key =
     (let err = isKeyValid L key in
      if err \<noteq> mc_req_err_valid then
        and_then
          (sendReply L preq \<lparr> result = mc_res_local_error, message = mc_req_err_to_string L err \<rparr>)
          (\<lambda>preq. Inr (preq, False))
      else Inr (preq, True))"

fun precheckRequest :: "mc_lib \<Rightarrow> 'd exec \<Rightarrow> Request \<Rightarrow> fault + ('d exec \<times> bool)" where
  "precheckRequest L preq McStatsRequest = Inr (preq, True)"
| "precheckRequest L preq McVersionRequest = Inr (preq, True)"
| "precheckRequest L preq McShutdownRequest =
     and_then (sendReply L preq \<lparr> result = mc_res_bad_command, message = [] \<rparr>)
       (\<lambda>preq. Inr (preq, False))"
| "precheckRequest L preq McFlushReRequest =
     and_then
       (sendReply L preq \<lparr> result = mc_res_local_error, message = kCommandNotSupportedStr \<rparr>)
       (\<lambda>preq. Inr (preq, False))"
| "precheckRequest L preq McFlushAllRequest =
     (if \<not> enable_flush_cmd preq then
        and_then
          (sendReply L preq \<lparr> result = mc_res_local_error, message = ''Command disabled'' \<rparr>)
          (\<lambda>preq. Inr (preq, False))
      else Inr (preq, True))"
| "precheckRequest L preq (McOtherRequest key) = precheckKey L preq key"

text \<open>\<^verbatim>\<open>startProcessing\<close> holds the context in \<^verbatim>\<open>self\<close>: a return that has not moved
  \<^verbatim>\<open>self\<close> into \<^verbatim>\<open>dispatchRequest\<close> deletes the context.\<close>

definition startProcessing :: "mc_lib \<Rightarrow> 'd exec \<Rightarrow> fault + 'd exec" where
  "startProcessing L s =
     (case req (ctx s) of
        None \<Rightarrow> Inl NullDereference
      | Some r \<Rightarrow>
          and_then (precheckRequest L s r) (\<lambda>(s, ok).
            if \<not> ok then Inr (s\<lparr> deleted := True \<rparr>)
            else if being_destroyed (proxy s) then
              and_then (sendReply L s \<lparr> result = mc_res_unknown, message = [] \<rparr>)
                (\<lambda>s. Inr (s\<lparr> deleted := True \<rparr>))
            else
              (case req (ctx s) of
                 None \<Rightarrow> Inl NullDereference
               | Some r \<Rightarrow> Inr (s\<lparr> dispatched := dispatched s @ [r] \<rparr>))))"

text \<open>A sequence of \<^verbatim>\<open>sendReply\<close> invocations on one context.\<close>

fun sendReplies :: "mc_lib \<Rightarrow> 'd exec \<Rightarrow> Reply list \<Rightarrow> fault + 'd exec" where
  "sendReplies L s [] = Inr s"
| "sendReplies L s (reply # replies) =
     and_then (sendReply L s reply) (\<lambda>s. sendReplies L s replies)"


section \<open>Preparing a snapshot\<close>

text \<open>The enumerators of \<^verbatim>\<open>stat_group_t\<close> (\<^verbatim>\<open>stats.h\<close>), by their values.\<close>

record stat_groups =
  mcproxy_stats :: "32 word"
  all_stats :: "32 word"
  detailed_stats :: "32 word"
  cmd_all_stats :: "32 word"
  cmd_in_stats :: "32 word"
  cmd_out_stats :: "32 word"
  cmd_error_stats :: "32 word"
  ods_stats :: "32 word"
  server_stats :: "32 word"
  suspect_server_stats :: "32 word"
  count_stats :: "32 word"
  outlier_stats :: "32 word"
  rate_stats :: "32 word"
  max_stats :: "32 word"
  max_max_stats :: "32 word"
  unknown_stats :: "32 word"

text \<open>What \<^verbatim>\<open>stats.cpp\<close> takes from \<^verbatim>\<open>stats.h\<close>, \<^verbatim>\<open>config.h\<close> and \<^verbatim>\<open>stat_list.h\<close>. An entry
  of \<open>stat_list\<close> is a slot as the \<^verbatim>\<open>STAT\<close> macro of \<^verbatim>\<open>init_stats\<close> leaves it, with its
  index; the entries stand in the order of the enumeration, so \<^verbatim>\<open>num_stats\<close> is the
  length of the list.\<close>

record hdr =
  grp :: stat_groups
  MOVING_AVERAGE_BIN_SIZE_IN_SECOND :: int
  MCROUTER_PACKAGE_STRING :: string
  stat_list :: "(stat_name_t \<times> stat_t) list"

definition init_stats :: "hdr \<Rightarrow> stats_table \<Rightarrow> stats_table" where
  "init_stats H tbl = fold (\<lambda>(n, s) tbl. tbl(n := s)) (stat_list H) tbl"

text \<open>Assignments to one member of a slot's \<^verbatim>\<open>data\<close>.\<close>

definition set_string :: "stats_table \<Rightarrow> stat_name_t \<Rightarrow> uint64_t \<Rightarrow> stats_table" where
  "set_string tbl n v = tbl(n := (tbl n)\<lparr> data := v \<rparr>)"

definition set_uint64 :: "stats_table \<Rightarrow> stat_name_t \<Rightarrow> uint64_t \<Rightarrow> stats_table" where
  "set_uint64 tbl n v = tbl(n := (tbl n)\<lparr> data := v \<rparr>)"

definition set_int64 :: "stats_table \<Rightarrow> stat_name_t \<Rightarrow> int64_t \<Rightarrow> stats_table" where
  "set_int64 tbl n v = tbl(n := (tbl n)\<lparr> data := v \<rparr>)"

definition set_dbl :: "'d dbl_ops \<Rightarrow> stats_table \<Rightarrow> stat_name_t \<Rightarrow> 'd \<Rightarrow> stats_table" where
  "set_dbl D tbl n v = tbl(n := (tbl n)\<lparr> data := d_bits D v \<rparr>)"

definition stat_set_uint64 ::
    "stats_table \<Rightarrow> stat_name_t \<Rightarrow> uint64_t \<Rightarrow> fault + stats_table" where
  "stat_set_uint64 tbl stat_num v =
     (if type (tbl stat_num) = stat_uint64 then Inr (set_uint64 tbl stat_num v)
      else Inl AssertionFailed)"

definition stat_get_uint64 :: "stats_table \<Rightarrow> stat_name_t \<Rightarrow> uint64_t" where
  "stat_get_uint64 tbl stat_num = data_uint64 (tbl stat_num)"

text \<open>What a snapshot reads from the operating system. \<open>proc_stat_file\<close> is the outcome of
  reading \<^verbatim>\<open>/proc/<pid>/stat\<close>: either \<^verbatim>\<open>fopen\<close> fails, or \<^verbatim>\<open>fscanf\<close> converts some of
  the six fields it is asked for and stores them, in the order of its format (none at
  all when the input fails before the first conversion).\<close>

datatype proc_stat_file = fopen_failed | fscanf_stored "uint64_t list"

record os_env =
  time_now :: uint64_t              \<comment> \<open>\<^verbatim>\<open>time(nullptr)\<close>\<close>
  getpid :: int64_t
  getppid :: int64_t
  ru_utime_sec :: int               \<comment> \<open>\<^verbatim>\<open>getrusage(RUSAGE_SELF, &ru)\<close>\<close>
  ru_utime_usec :: int
  ru_stime_sec :: int
  ru_stime_usec :: int
  proc_stat :: proc_stat_file
  sysconf_CLK_TCK :: int
  sysconf_PAGESIZE :: int
  gStandaloneArgs :: uint64_t       \<comment> \<open>a \<^verbatim>\<open>char*\<close>\<close>
  c_str :: "uint64_t \<Rightarrow> string"     \<comment> \<open>the C string that stands at an address\<close>

record 'd proc_stat_data_t =
  num_minor_faults :: uint64_t
  num_major_faults :: uint64_t
  user_time_sec :: "'d"
  system_time_sec :: "'d"
  vsize :: uint64_t
  rss :: uint64_t

text \<open>Returns its status with the record. \<^verbatim>\<open>fscanf\<close> stores a converted field into its
  target at once: the first, second and fifth targets are fields of the record itself.\<close>

definition get_proc_stat :: "'d dbl_ops \<Rightarrow> os_env \<Rightarrow> int \<times> 'd proc_stat_data_t" where
  "get_proc_stat D env =
     (let data = \<lparr> num_minor_faults = 0, num_major_faults = 0,
                   user_time_sec = d_of_int D 0, system_time_sec = d_of_int D 0,
                   vsize = 0, rss = 0 \<rparr>
      in case proc_stat env of
           fopen_failed \<Rightarrow> (- 1, data)
         | fscanf_stored fs \<Rightarrow>
             (let count = min 6 (length fs);
                  data = (if 1 \<le> count then data\<lparr> num_minor_faults := fs ! 0 \<rparr> else data);
                  data = (if 2 \<le> count then data\<lparr> num_major_faults := fs ! 1 \<rparr> else data);
                  data = (if 5 \<le> count then data\<lparr> vsize := fs ! 4 \<rparr> else data)
              in if count \<noteq> 6 then (- 1, data)
                 else
                   (let utime_ticks = fs ! 2;
                        stime_ticks = fs ! 3;
                        rss_pages = fs ! 5;
                        data = data\<lparr> user_time_sec :=
                                 d_div D (d_of_u64 D utime_ticks) (d_of_int D (sysconf_CLK_TCK env)) \<rparr>;
                        data = data\<lparr> system_time_sec :=
                                 d_div D (d_of_u64 D stime_ticks) (d_of_int D (sysconf_CLK_TCK env)) \<rparr>;
                        data = data\<lparr> rss :=
                                 (if sint rss_pages < 0 then 0
                                  else rss_pages * word_of_int (sysconf_PAGESIZE env)) \<rparr>
                    in (0, data))))"

subsection \<open>\<^verbatim>\<open>prepare_stats\<close>\<close>

definition sum_within_window :: "'d McrouterInstanceBase \<Rightarrow> stat_name_t \<Rightarrow> uint64_t" where
  "sum_within_window router n =
     fold (\<lambda>p acc. acc + stats_num_within_window p n) (proxies router) 0"

definition config_last_success :: "'d McrouterInstanceBase \<Rightarrow> uint64_t" where
  "config_last_success router =
     fold (\<lambda>p acc. max acc (data_uint64 (stats p config_last_success_stat))) (proxies router) 0"

definition avgBatchSize :: "'d dbl_ops \<Rightarrow> 'd McrouterInstanceBase \<Rightarrow> 'd" where
  "avgBatchSize D router =
     (let destinationBatchesSum = sum_within_window router destination_batches_sum_stat;
          destinationRequestsSum = sum_within_window router destination_requests_sum_stat
      in if destinationBatchesSum \<noteq> 0
         then d_div D (d_of_u64 D destinationRequestsSum) (d_of_u64 D destinationBatchesSum)
         else d_of_int D 0)"

definition avgRetransPerKByte :: "'d dbl_ops \<Rightarrow> 'd McrouterInstanceBase \<Rightarrow> 'd" where
  "avgRetransPerKByte D router =
     (let retransPerKByteSum = sum_within_window router retrans_per_kbyte_sum_stat;
          retransNumTotal = sum_within_window router retrans_num_total_stat
      in if retransNumTotal \<noteq> 0
         then d_div D (d_of_u64 D retransPerKByteSum) (d_of_u64 D retransNumTotal)
         else d_of_int D 0)"

text \<open>Lines 374 to 405: the suspect count and the derived ratios.\<close>

definition set_ratios ::
    "'d dbl_ops \<Rightarrow> 'd McrouterInstanceBase \<Rightarrow> stats_table \<Rightarrow> fault + stats_table" where
  "set_ratios D router tbl =
     and_then (stat_set_uint64 tbl num_suspect_servers_stat (getSuspectServersCount router)) (\<lambda>tbl.
       (let outstandingGetReqsTotal =
              sum_within_window router outstanding_route_get_reqs_queued_stat;
            outstandingGetReqsHelper =
              sum_within_window router outstanding_route_get_reqs_queued_helper_stat;
            outstandingGetWaitTimeSumUs =
              sum_within_window router outstanding_route_get_wait_time_sum_us_stat;
            outstandingUpdateReqsTotal =
              sum_within_window router outstanding_route_update_reqs_queued_stat;
            outstandingUpdateReqsHelper =
              sum_within_window router outstanding_route_update_reqs_queued_helper_stat;
            outstandingUpdateWaitTimeSumUs =
              sum_within_window router outstanding_route_update_wait_time_sum_us_stat;
            tbl = set_dbl D tbl destination_batch_size_stat (avgBatchSize D router);
            tbl = set_dbl D tbl retrans_per_kbyte_avg_stat (avgRetransPerKByte D router);
            tbl = set_dbl D tbl outstanding_route_get_avg_queue_size_stat (d_of_int D 0);
            tbl = set_dbl D tbl outstanding_route_get_avg_wait_time_sec_stat (d_of_int D 0);
            tbl = (if outstandingGetReqsTotal > 0 then
                     set_dbl D
                       (set_dbl D tbl outstanding_route_get_avg_queue_size_stat
                          (d_div D (d_of_u64 D outstandingGetReqsHelper)
                             (d_of_u64 D outstandingGetReqsTotal)))
                       outstanding_route_get_avg_wait_time_sec_stat
                       (d_div D (d_of_u64 D outstandingGetWaitTimeSumUs)
                          (d_mul D (d_of_int D 1000000) (d_of_u64 D outstandingGetReqsTotal)))
                   else tbl);
            tbl = set_dbl D tbl outstanding_route_update_avg_queue_size_stat (d_of_int D 0);
            tbl = set_dbl D tbl outstanding_route_update_avg_wait_time_sec_stat (d_of_int D 0);
            tbl = (if outstandingUpdateReqsTotal > 0 then
                     set_dbl D
                       (set_dbl D tbl outstanding_route_update_avg_queue_size_stat
                          (d_div D (d_of_u64 D outstandingUpdateReqsHelper)
                             (d_of_u64 D outstandingUpdateReqsTotal)))
                       outstanding_route_update_avg_wait_time_sec_stat
                       (d_div D (d_of_u64 D outstandingUpdateWaitTimeSumUs)
                          (d_mul D (d_of_int D 1000000) (d_of_u64 D outstandingUpdateReqsTotal)))
                   else tbl)
        in Inr tbl))"

text \<open>Lines 407 to 430: arguments, times, configuration, process ids and \<^verbatim>\<open>getrusage\<close>.\<close>

definition set_process_facts ::
    "'d dbl_ops \<Rightarrow> 'd McrouterInstanceBase \<Rightarrow> os_env \<Rightarrow> stats_table \<Rightarrow> stats_table" where
  "set_process_facts D router env tbl =
     (let tbl = set_string tbl commandargs_stat (gStandaloneArgs env);
          now = time_now env;
          tbl = set_uint64 tbl time_stat now;
          start_time = startTime router;
          tbl = set_uint64 tbl start_time_stat start_time;
          tbl = set_uint64 tbl uptime_stat (now - start_time);
          tbl = set_uint64 tbl config_age_stat (now - config_last_success router);
          tbl = set_uint64 tbl config_last_success_stat (config_last_success router);
          tbl = set_uint64 tbl config_last_attempt_stat (lastConfigAttempt router);
          tbl = set_uint64 tbl config_failures_stat (configFailures router);
          tbl = set_int64 tbl pid_stat (getpid env);
          tbl = set_int64 tbl parent_pid_stat (getppid env);
          tbl = set_dbl D tbl rusage_user_stat
                  (d_add D (d_of_int D (ru_utime_sec env))
                     (d_div D (d_of_int D (ru_utime_usec env)) (d_of_int D 1000000)));
          tbl = set_dbl D tbl rusage_system_stat
                  (d_add D (d_of_int D (ru_stime_sec env))
                     (d_div D (d_of_int D (ru_stime_usec env)) (d_of_int D 1000000)))
      in tbl)"

text \<open>Lines 432 to 439: the record of \<^verbatim>\<open>get_proc_stat\<close>, whose status is not read.\<close>

definition set_proc_stat :: "'d dbl_ops \<Rightarrow> os_env \<Rightarrow> stats_table \<Rightarrow> stats_table" where
  "set_proc_stat D env tbl =
     (let ps_data = snd (get_proc_stat D env);
          tbl = set_uint64 tbl ps_num_minor_faults_stat (num_minor_faults ps_data);
          tbl = set_uint64 tbl ps_num_major_faults_stat (num_major_faults ps_data);
          tbl = set_dbl D tbl ps_user_time_sec_stat (user_time_sec ps_data);
          tbl = set_dbl D tbl ps_system_time_sec_stat (system_time_sec ps_data);
          tbl = set_uint64 tbl ps_rss_stat (rss ps_data);
          tbl = set_uint64 tbl ps_vsize_stat (vsize ps_data)
      in tbl)"

text \<open>Lines 441 to 460: the fiber managers, the durations and the notify periods.\<close>

definition add_fiber_stats :: "'d dbl_ops \<Rightarrow> 'd Proxy \<Rightarrow> stats_table \<Rightarrow> stats_table" where
  "add_fiber_stats D pr tbl =
     (let tbl = set_uint64 tbl fibers_allocated_stat
                  (data_uint64 (tbl fibers_allocated_stat) + fibersAllocated pr);
          tbl = set_uint64 tbl fibers_pool_size_stat
                  (data_uint64 (tbl fibers_pool_size_stat) + fibersPoolSize pr);
          tbl = set_uint64 tbl fibers_stack_high_watermark_stat
                  (max (data_uint64 (tbl fibers_stack_high_watermark_stat)) (stackHighWatermark pr));
          tbl = set_dbl D tbl duration_us_stat
                  (d_add D (data_dbl D (tbl duration_us_stat)) (durationUs pr));
          tbl = set_dbl D tbl client_queue_notify_period_stat
                  (d_add D (data_dbl D (tbl client_queue_notify_period_stat)) (queueNotifyPeriod pr))
      in tbl)"

definition set_fiber_stats ::
    "'d dbl_ops \<Rightarrow> 'd McrouterInstanceBase \<Rightarrow> stats_table \<Rightarrow> stats_table" where
  "set_fiber_stats D router tbl =
     (let tbl = set_uint64 tbl fibers_allocated_stat 0;
          tbl = set_uint64 tbl fibers_pool_size_stat 0;
          tbl = set_uint64 tbl fibers_stack_high_watermark_stat 0;
          tbl = fold (add_fiber_stats D) (proxies router) tbl
      in if num_proxies router > 0 then
           (let tbl = set_dbl D tbl duration_us_stat
                        (d_div D (data_dbl D (tbl duration_us_stat))
                           (d_of_u64 D (of_nat (num_proxies router))))
            in set_dbl D tbl client_queue_notify_period_stat
                 (d_div D (data_dbl D (tbl client_queue_notify_period_stat))
                    (d_of_u64 D (of_nat (num_proxies router)))))
         else tbl)"

text \<open>Lines 462 to 477: the sum over the proxies, for one slot and for all slots.\<close>

fun aggregate_stat ::
    "'d dbl_ops \<Rightarrow> stat_name_t \<Rightarrow> 'd Proxy list \<Rightarrow> stats_table \<Rightarrow> fault + stats_table" where
  "aggregate_stat D i [] tbl = Inr tbl"
| "aggregate_stat D i (pr # prs) tbl =
     (if type (tbl i) = stat_uint64 then
        aggregate_stat D i prs (set_uint64 tbl i (data_uint64 (tbl i) + data_uint64 (stats pr i)))
      else if type (tbl i) = stat_int64 then
        aggregate_stat D i prs (set_int64 tbl i (data_int64 (tbl i) + data_int64 (stats pr i)))
      else if type (tbl i) = stat_double then
        aggregate_stat D i prs
          (set_dbl D tbl i (d_add D (data_dbl D (tbl i)) (data_dbl D (stats pr i))))
      else Inl FatalLog)"

fun aggregate_stats ::
    "'d dbl_ops \<Rightarrow> 32 word \<Rightarrow> 'd Proxy list \<Rightarrow> stat_name_t list \<Rightarrow> stats_table
       \<Rightarrow> fault + stats_table" where
  "aggregate_stats D rate prs [] tbl = Inr tbl"
| "aggregate_stats D rate prs (i # rest) tbl =
     (if aggregate (tbl i) \<and> group (tbl i) AND rate = 0 then
        and_then (aggregate_stat D i prs tbl) (aggregate_stats D rate prs rest)
      else aggregate_stats D rate prs rest tbl)"

definition prepare_stats ::
    "'d dbl_ops \<Rightarrow> hdr \<Rightarrow> 'd McrouterInstanceBase \<Rightarrow> os_env \<Rightarrow> stats_table
       \<Rightarrow> fault + stats_table" where
  "prepare_stats D H router env tbl =
     and_then (set_ratios D router (init_stats H tbl)) (\<lambda>tbl.
       aggregate_stats D (rate_stats (grp H)) (proxies router) (map fst (stat_list H))
         (set_fiber_stats D router (set_proc_stat D env (set_process_facts D router env tbl))))"


section \<open>The statistics query\<close>

definition stat_parse_group_str :: "stat_groups \<Rightarrow> string \<Rightarrow> 32 word" where
  "stat_parse_group_str G str =
     (if str = ''all'' then all_stats G
      else if str = ''detailed'' then detailed_stats G
      else if str = ''cmd'' then cmd_all_stats G
      else if str = ''cmd-in'' then cmd_in_stats G
      else if str = ''cmd-out'' then cmd_out_stats G
      else if str = ''cmd-error'' then cmd_error_stats G
      else if str = ''ods'' then ods_stats G
      else if str = ''servers'' then server_stats G
      else if str = ''suspect_servers'' then suspect_server_stats G
      else if str = ''count'' then count_stats G
      else if str = ''outlier'' then outlier_stats G
      else if str = [] then mcproxy_stats G
      else unknown_stats G)"

record 'd ServerStat =
  results :: "mc_res_t \<Rightarrow> uint64_t"
  states :: "State \<Rightarrow> uint64_t"
  isHardTko :: bool
  isSoftTko :: bool
  sumLatencies :: "'d"
  cntLatencies :: uint64_t
  pendingRequestsCount :: uint64_t
  inflightRequestsCount :: uint64_t
  sumRetransPerKByte :: "'d"
  cntRetransPerKByte :: uint64_t
  maxRetransPerKByte :: "'d"
  minRetransPerKByte :: "'d"

text \<open>The member initializers of \<^verbatim>\<open>ServerStat\<close>.\<close>

definition ServerStat_init :: "'d dbl_ops \<Rightarrow> 'd ServerStat" where
  "ServerStat_init D =
     \<lparr> results = (\<lambda>_. 0), states = (\<lambda>_. 0), isHardTko = False, isSoftTko = False,
       sumLatencies = d_of_int D 0, cntLatencies = 0,
       pendingRequestsCount = 0, inflightRequestsCount = 0,
       sumRetransPerKByte = d_of_int D 0, cntRetransPerKByte = 0,
       maxRetransPerKByte = d_of_int D 0, minRetransPerKByte = d_infinity D \<rparr>"

text \<open>The body of the lambda that \<^verbatim>\<open>stats_reply\<close> passes to
  \<^verbatim>\<open>foreachDestinationSynced\<close>, on the entry \<open>stat\<close> of the destination's key.\<close>

definition visit_destination ::
    "'d dbl_ops \<Rightarrow> 'd ProxyDestination \<Rightarrow> 'd ServerStat \<Rightarrow> 'd ServerStat" where
  "visit_destination D pdstn stat =
     (let stat = stat\<lparr> isHardTko := tracker_isHardTko pdstn \<rparr>;
          stat = stat\<lparr> isSoftTko := tracker_isSoftTko pdstn \<rparr>;
          stat = (case stats_results pdstn of
                    Some res \<Rightarrow> stat\<lparr> results := (\<lambda>j. results stat j + res j) \<rparr>
                  | None \<Rightarrow> stat);
          stat = stat\<lparr> states := (states stat)
                          (stats_state pdstn := states stat (stats_state pdstn) + 1) \<rparr>;
          stat = (case stats_avgLatency pdstn of
                    Some v \<Rightarrow> stat\<lparr> sumLatencies := d_add D (sumLatencies stat) v,
                                    cntLatencies := cntLatencies stat + 1 \<rparr>
                  | None \<Rightarrow> stat);
          stat = (if d_le D (d_of_int D 0) (stats_retransPerKByte pdstn) then
                    (let val = stats_retransPerKByte pdstn in
                     stat\<lparr> sumRetransPerKByte := d_add D (sumRetransPerKByte stat) val,
                           maxRetransPerKByte := d_max D (maxRetransPerKByte stat) val,
                           minRetransPerKByte := d_min D (minRetransPerKByte stat) val,
                           cntRetransPerKByte := cntRetransPerKByte stat + 1 \<rparr>)
                  else stat);
          stat = stat\<lparr> pendingRequestsCount :=
                          pendingRequestsCount stat + getPendingRequestCount pdstn \<rparr>;
          stat = stat\<lparr> inflightRequestsCount :=
                          inflightRequestsCount stat + getInflightRequestCount pdstn \<rparr>
      in stat)"

text \<open>\<^verbatim>\<open>serverStats\<close> is an association list, in the order in which the keys were first
  seen (the source's map is unordered). \<open>at_key key f m\<close> is \<^verbatim>\<open>f(serverStats[key])\<close>:
  a key that is not there is entered with a fresh \<^verbatim>\<open>ServerStat\<close> first.\<close>

fun at_key ::
    "'d dbl_ops \<Rightarrow> string \<Rightarrow> ('d ServerStat \<Rightarrow> 'd ServerStat) \<Rightarrow> (string \<times> 'd ServerStat) list
       \<Rightarrow> (string \<times> 'd ServerStat) list" where
  "at_key D key f [] = [(key, f (ServerStat_init D))]"
| "at_key D key f ((k, stat) # m) =
     (if k = key then (k, f stat) # m else (k, stat) # at_key D key f m)"

definition collect_server_stats ::
    "'d dbl_ops \<Rightarrow> 'd McrouterInstanceBase \<Rightarrow> (string \<times> 'd ServerStat) list" where
  "collect_server_stats D router =
     fold (\<lambda>p serverStats.
             fold (\<lambda>(key, pdstn) serverStats. at_key D key (visit_destination D pdstn) serverStats)
               (destinationMap p) serverStats)
       (proxies router) []"

text \<open>A value of the reply, as it is handed to its formatter: \<^verbatim>\<open>%g\<close> for a double,
  \<^verbatim>\<open>folly::to<std::string>\<close> for an integer, \<^verbatim>\<open>ServerStat::toString\<close>, and the
  \<^verbatim>\<open>status:{} num_failures:{}\<close> line of a suspect server.\<close>

datatype 'd stat_value =
    V_string string
  | V_uint64 uint64_t
  | V_int64 int64_t
  | V_double "'d"
  | V_server "'d ServerStat"
  | V_suspect bool uint64_t

datatype 'd McStatsReply =
    StatsOk "(string \<times> 'd stat_value) list"   \<comment> \<open>\<^verbatim>\<open>StatsReply::getReply\<close>\<close>
  | StatsError mc_res_t string

text \<open>\<^verbatim>\<open>stat_to_str\<close>, up to the formatting. A \<^verbatim>\<open>std::string\<close> is built from the C
  string that the slot points to.\<close>

definition stat_to_str :: "'d dbl_ops \<Rightarrow> os_env \<Rightarrow> stat_t \<Rightarrow> fault + 'd stat_value" where
  "stat_to_str D env stat =
     (case type stat of
        stat_string \<Rightarrow>
          (if data_string stat = 0 then Inl NullDereference
           else Inr (V_string (c_str env (data_string stat))))
      | stat_uint64 \<Rightarrow> Inr (V_uint64 (data_uint64 stat))
      | stat_int64 \<Rightarrow> Inr (V_int64 (data_int64 stat))
      | stat_double \<Rightarrow> Inr (V_double (data_dbl D stat)))"

text \<open>Lines 556 to 569: one line for every slot of the requested groups.\<close>

fun add_stats ::
    "'d dbl_ops \<Rightarrow> hdr \<Rightarrow> 'd McrouterInstanceBase \<Rightarrow> 'd Proxy \<Rightarrow> os_env \<Rightarrow> stats_table
       \<Rightarrow> 32 word \<Rightarrow> stat_name_t list \<Rightarrow> fault + (string \<times> 'd stat_value) list" where
  "add_stats D H router pr env tbl groups [] = Inr []"
| "add_stats D H router pr env tbl groups (ii # rest) =
     (let stat = tbl ii in
      if group stat AND groups \<noteq> 0 then
        and_then
          (if group stat AND rate_stats (grp H) \<noteq> 0 then
             Inr (V_double (stats_rate_value D (MOVING_AVERAGE_BIN_SIZE_IN_SECOND H) router pr ii))
           else if group stat AND max_stats (grp H) \<noteq> 0 then
             Inr (V_uint64 (stats_max_value router ii))
           else if group stat AND max_max_stats (grp H) \<noteq> 0 then
             Inr (V_uint64 (stats_aggregate_max_max_value router ii))
           else stat_to_str D env stat)
          (\<lambda>v. and_then (add_stats D H router pr env tbl groups rest)
                 (\<lambda>lines. Inr ((name stat, v) # lines)))
      else add_stats D H router pr env tbl groups rest)"

text \<open>The result of a query is the reply together with the local table
  \<^verbatim>\<open>stats[num_stats]\<close>, when the query came to prepare it; \<open>stack\<close> is what that table
  holds before \<^verbatim>\<open>init_stats\<close>. The lock on \<^verbatim>\<open>stats_lock\<close> is not modelled.\<close>

definition stats_reply ::
    "'d dbl_ops \<Rightarrow> hdr \<Rightarrow> 'd McrouterInstanceBase \<Rightarrow> 'd Proxy \<Rightarrow> os_env \<Rightarrow> stats_table
       \<Rightarrow> string \<Rightarrow> fault + ('d McStatsReply \<times> stats_table option)" where
  "stats_reply D H router pr env stack group_str =
     (if group_str = ''version'' then
        Inr (StatsOk [(''mcrouter-version'', V_string (MCROUTER_PACKAGE_STRING H))], None)
      else
        (let groups = stat_parse_group_str (grp H) group_str in
         if groups = unknown_stats (grp H) then
           Inr (StatsError mc_res_client_error ''bad stats command'', None)
         else
           and_then (prepare_stats D H router env stack) (\<lambda>tbl.
             and_then (add_stats D H router pr env tbl groups (map fst (stat_list H))) (\<lambda>lines.
               (let servers =
                      (if groups AND server_stats (grp H) \<noteq> 0 then
                         map (\<lambda>(key, stat). (key, V_server stat)) (collect_server_stats D router)
                       else []);
                    suspects =
                      (if groups AND suspect_server_stats (grp H) \<noteq> 0 then
                         map (\<lambda>(key, tko, failures). (key, V_suspect tko failures))
                           (getSuspectServers router)
                       else [])
                in Inr (StatsOk (lines @ servers @ suspects), Some tbl))))))"

section \<open>What the specification compares the code with\<close>

text \<open>The views that the shards hold of the destination \<open>key\<close>, in the order in which a
  query visits them.\<close>

definition views :: "'d McrouterInstanceBase \<Rightarrow> string \<Rightarrow> 'd ProxyDestination list" where
  "views router key =
     concat (map (\<lambda>p. map snd (filter (\<lambda>(k, pdstn). k = key) (destinationMap p))) (proxies router))"

text \<open>Whether some shard's view of the destination \<open>key\<close> has the flag.\<close>

definition any_view ::
    "('d ProxyDestination \<Rightarrow> bool) \<Rightarrow> 'd McrouterInstanceBase \<Rightarrow> string \<Rightarrow> bool" where
  "any_view flag router key = list_ex flag (views router key)"

text \<open>The flags of the aggregated snapshots, and of the shards' views of \<open>key\<close>.\<close>

definition flags_of :: "(string \<times> 'd ServerStat) list \<Rightarrow> (string \<times> bool \<times> bool) list" where
  "flags_of m = map (\<lambda>(key, stat). (key, isHardTko stat, isSoftTko stat)) m"

definition view_flags :: "'d McrouterInstanceBase \<Rightarrow> string \<Rightarrow> (bool \<times> bool) list" where
  "view_flags router key = map (\<lambda>v. (tracker_isHardTko v, tracker_isSoftTko v)) (views router key)"

text \<open>The largest of the bins of a shard below the bin \<open>n\<close>. The maximum single bin
  value that a shard retains is the largest of the bins that the shard itself has
  used, and \<open>max_of_shard_maxes\<close> is the maximum of it across the shards.\<close>

definition max_bin_below :: "'d Proxy \<Rightarrow> stat_name_t \<Rightarrow> nat \<Rightarrow> uint64_t" where
  "max_bin_below p idx n = fold (\<lambda>j mx. max mx (stats_bin p idx j)) [0 ..< n] 0"

definition shard_max_bin :: "'d Proxy \<Rightarrow> stat_name_t \<Rightarrow> uint64_t" where
  "shard_max_bin p idx = max_bin_below p idx (nat (num_bins_used p))"

definition max_of_shard_maxes :: "'d McrouterInstanceBase \<Rightarrow> stat_name_t \<Rightarrow> uint64_t" where
  "max_of_shard_maxes router idx =
     fold (\<lambda>p mx. max mx (shard_max_bin p idx)) (proxies router) 0"

text \<open>Every shard has used as many bins as the one that \<^verbatim>\<open>get_num_bins_used\<close> reads.\<close>

definition same_bins_used :: "'d McrouterInstanceBase \<Rightarrow> bool" where
  "same_bins_used router =
     list_all (\<lambda>p. num_bins_used p = get_num_bins_used router) (proxies router)"

text \<open>The bins of the slot \<open>idx\<close> below the bin \<open>n\<close> hold \<open>a\<close> in the bin \<open>js\<close> of the
  shard \<open>S\<close>, \<open>b\<close> in the bin \<open>jt\<close> of another shard \<open>T\<close>, and zero everywhere else.\<close>

definition two_records ::
    "'d McrouterInstanceBase \<Rightarrow> stat_name_t \<Rightarrow> nat \<Rightarrow> nat \<Rightarrow> nat \<Rightarrow> uint64_t \<Rightarrow> nat \<Rightarrow> nat
       \<Rightarrow> uint64_t \<Rightarrow> bool" where
  "two_records router idx n S js a T jt b =
     (S < num_proxies router \<and> T < num_proxies router \<and> S \<noteq> T \<and> js < n \<and> jt < n \<and>
      (\<forall>i < num_proxies router. \<forall>j < n.
         stats_bin (proxies router ! i) idx j =
           (if i = S \<and> j = js then a else if i = T \<and> j = jt then b else 0)))"

text \<open>The value of a counter of the context's proxy.\<close>

definition counter :: "'d exec \<Rightarrow> stat_name_t \<Rightarrow> uint64_t" where
  "counter s n = data_uint64 (stats (proxy s) n)"

text \<open>The six counters that \<^verbatim>\<open>sendReply\<close> names.\<close>

definition reply_stats :: "stat_name_t list" where
  "reply_stats =
     [request_replied_stat, request_replied_count_stat, request_error_stat,
      request_error_count_stat, request_success_stat, request_success_count_stat]"

text \<open>The tokens that \<^verbatim>\<open>stat_parse_group_str\<close> recognizes; the last is the empty token.\<close>

definition group_tokens :: "string list" where
  "group_tokens =
     [''all'', ''detailed'', ''cmd'', ''cmd-in'', ''cmd-out'', ''cmd-error'', ''ods'',
      ''servers'', ''suspect_servers'', ''count'', ''outlier'', []]"

text \<open>The slots that \<^verbatim>\<open>prepare_stats\<close> computes itself, before it sums over the proxies.\<close>

definition computed_stats :: "stat_name_t list" where
  "computed_stats =
     [num_suspect_servers_stat, destination_batch_size_stat, retrans_per_kbyte_avg_stat,
      outstanding_route_get_avg_queue_size_stat, outstanding_route_get_avg_wait_time_sec_stat,
      outstanding_route_update_avg_queue_size_stat,
      outstanding_route_update_avg_wait_time_sec_stat,
      commandargs_stat, time_stat, start_time_stat, uptime_stat, config_age_stat,
      config_last_success_stat, config_last_attempt_stat, config_failures_stat,
      pid_stat, parent_pid_stat, rusage_user_stat, rusage_system_stat,
      ps_num_minor_faults_stat, ps_num_major_faults_stat, ps_user_time_sec_stat,
      ps_system_time_sec_stat, ps_rss_stat, ps_vsize_stat,
      fibers_allocated_stat, fibers_pool_size_stat, fibers_stack_high_watermark_stat,
      duration_us_stat, client_queue_notify_period_stat]"

text \<open>The six slots that hold the record of \<^verbatim>\<open>get_proc_stat\<close> (lines 432 to 439).\<close>

definition proc_stats :: "stat_name_t list" where
  "proc_stats =
     [ps_num_minor_faults_stat, ps_num_major_faults_stat, ps_user_time_sec_stat,
      ps_system_time_sec_stat, ps_rss_stat, ps_vsize_stat]"

text \<open>A slot is summed over the proxies when it is aggregatable and not a rate.\<close>

definition summed :: "hdr \<Rightarrow> stat_t \<Rightarrow> bool" where
  "summed H s = (aggregate s \<and> group s AND rate_stats (grp H) = 0)"

text \<open>The loop of lines 462 to 477 comes to the slot \<open>n\<close> and sums it over the proxies:
  the slot is one of \<^verbatim>\<open>stat_list.h\<close> and \<^verbatim>\<open>init_stats\<close> leaves it aggregatable and not
  a rate.\<close>

definition summed_in :: "hdr \<Rightarrow> stats_table \<Rightarrow> stat_name_t \<Rightarrow> bool" where
  "summed_in H stack n =
     (n \<in> set (map fst (stat_list H)) \<and> summed H (init_stats H stack n))"

text \<open>What keeps \<^verbatim>\<open>prepare_stats\<close> from aborting: the suspect count is an unsigned slot
  (the assertion of \<^verbatim>\<open>stat_set_uint64\<close>) and, unless the router has no proxy, no slot
  that is summed over the proxies is a string slot (\<^verbatim>\<open>LOG(FATAL)\<close>).\<close>

definition prepares :: "hdr \<Rightarrow> 'd McrouterInstanceBase \<Rightarrow> stats_table \<Rightarrow> bool" where
  "prepares H router stack =
     (type (init_stats H stack num_suspect_servers_stat) = stat_uint64 \<and>
      (proxies router = [] \<or>
       list_all (\<lambda>n. summed H (init_stats H stack n) \<longrightarrow>
                      type (init_stats H stack n) \<noteq> stat_string)
         (map fst (stat_list H))))"

text \<open>The bits of a double slot after the doubles of the proxies' slots \<open>i\<close> have been
  added to it, one proxy after the other.\<close>

definition dbl_sum :: "'d dbl_ops \<Rightarrow> 'd Proxy list \<Rightarrow> stat_name_t \<Rightarrow> uint64_t \<Rightarrow> uint64_t" where
  "dbl_sum D prs i w =
     fold (\<lambda>p w. d_bits D (d_add D (d_of_bits D w) (data_dbl D (stats p i)))) prs w"

text \<open>The read of \<^verbatim>\<open>/proc/<pid>/stat\<close> fails: the file cannot be opened, or fewer than
  six fields are converted. \<open>stored env k\<close> is the field that \<^verbatim>\<open>fscanf\<close> stored as its
  \<open>k\<close>-th (from 0), and 0 when it did not store that many.\<close>

definition proc_read_failed :: "os_env \<Rightarrow> bool" where
  "proc_read_failed env =
     (case proc_stat env of fopen_failed \<Rightarrow> True | fscanf_stored fs \<Rightarrow> length fs < 6)"

definition stored :: "os_env \<Rightarrow> nat \<Rightarrow> uint64_t" where
  "stored env k =
     (case proc_stat env of
        fopen_failed \<Rightarrow> 0
      | fscanf_stored fs \<Rightarrow> if k < length fs then fs ! k else 0)"

text \<open>\<^verbatim>\<open>stat_incr\<close> of the slot \<open>i\<close> by \<open>k\<close> on the shard \<open>S\<close> of the router.\<close>

definition incr_on ::
    "'d McrouterInstanceBase \<Rightarrow> nat \<Rightarrow> stat_name_t \<Rightarrow> uint64_t \<Rightarrow> 'd McrouterInstanceBase" where
  "incr_on router S i k =
     router\<lparr> proxies := (proxies router)
       [S := (proxies router ! S)\<lparr> stats := stat_incr (stats (proxies router ! S)) i k \<rparr>] \<rparr>"

text \<open>The unsigned value of a slot in the outcome of \<^verbatim>\<open>prepare_stats\<close>.\<close>

definition slot_uint64 :: "fault + stats_table \<Rightarrow> stat_name_t \<Rightarrow> fault + uint64_t" where
  "slot_uint64 outcome n = map_sum id (\<lambda>tbl. data_uint64 (tbl n)) outcome"

section \<open>Notions for the proofs\<close>

text \<open>\<open>frame ns tbl tbl'\<close>: the table \<open>tbl'\<close> differs from \<open>tbl\<close> at most in the data of
  the slots \<open>ns\<close>.\<close>

definition frame :: "stat_name_t list \<Rightarrow> stats_table \<Rightarrow> stats_table \<Rightarrow> bool" where
  "frame ns tbl tbl' =
     (\<forall>m. name (tbl' m) = name (tbl m) \<and> group (tbl' m) = group (tbl m) \<and>
          type (tbl' m) = type (tbl m) \<and> aggregate (tbl' m) = aggregate (tbl m) \<and>
          (m \<notin> set ns \<longrightarrow> tbl' m = tbl m))"

text \<open>A slot with the values of the proxies' slots \<open>i\<close> added to it, in the member that
  its type names.\<close>

definition summed_slot :: "'d dbl_ops \<Rightarrow> 'd Proxy list \<Rightarrow> stat_name_t \<Rightarrow> stat_t \<Rightarrow> stat_t" where
  "summed_slot D prs i s =
     (case type s of
        stat_uint64 \<Rightarrow> s\<lparr> data := data s + sum_list (map (\<lambda>p. data (stats p i)) prs) \<rparr>
      | stat_int64 \<Rightarrow> s\<lparr> data := data s + sum_list (map (\<lambda>p. data (stats p i)) prs) \<rparr>
      | stat_double \<Rightarrow> s\<lparr> data := dbl_sum D prs i (data s) \<rparr>
      | stat_string \<Rightarrow> s)"

text \<open>The slots of lines 441 to 460.\<close>

definition fiber_stats :: "stat_name_t list" where
  "fiber_stats =
     [fibers_allocated_stat, fibers_pool_size_stat, fibers_stack_high_watermark_stat,
      duration_us_stat, client_queue_notify_period_stat]"

text \<open>The table of \<^verbatim>\<open>prepare_stats\<close> when it comes to sum over the proxies (line 462).\<close>

definition before_sum ::
    "'d dbl_ops \<Rightarrow> hdr \<Rightarrow> 'd McrouterInstanceBase \<Rightarrow> os_env \<Rightarrow> stats_table \<Rightarrow> stats_table" where
  "before_sum D H router env stack =
     (case set_ratios D router (init_stats H stack) of
        Inl e \<Rightarrow> init_stats H stack
      | Inr tbl \<Rightarrow>
          set_fiber_stats D router (set_proc_stat D env (set_process_facts D router env tbl)))"

section \<open>Worked examples: inputs\<close>

text \<open>An instance of the double operations for the examples: exact arithmetic on the
  reals, with one infinity. The bits \<open>w\<close> are read as \<open>w\<close> times \<open>2\<close> to the power
  \<open>-1074\<close>, as the bits of a subnormal double are; the examples store no double but
  zero.\<close>

datatype exact = Finite real | Infinite

definition exact_ops :: "exact dbl_ops" where
  "exact_ops =
     \<lparr> d_of_u64 = (\<lambda>w. Finite (real (unat w))),
       d_of_int = (\<lambda>i. Finite (real_of_int i)),
       d_add = (\<lambda>a b. case (a, b) of (Finite x, Finite y) \<Rightarrow> Finite (x + y) | _ \<Rightarrow> Infinite),
       d_mul = (\<lambda>a b. case (a, b) of (Finite x, Finite y) \<Rightarrow> Finite (x * y) | _ \<Rightarrow> Infinite),
       d_div = (\<lambda>a b. case (a, b) of
                  (Finite x, Finite y) \<Rightarrow> if y = 0 then Infinite else Finite (x / y)
                | (Finite x, Infinite) \<Rightarrow> Finite 0
                | _ \<Rightarrow> Infinite),
       d_less = (\<lambda>a b. case (a, b) of
                  (Finite x, Finite y) \<Rightarrow> x < y | (Finite x, Infinite) \<Rightarrow> True | _ \<Rightarrow> False),
       d_le = (\<lambda>a b. case (a, b) of
                  (Finite x, Finite y) \<Rightarrow> x \<le> y | (_, Infinite) \<Rightarrow> True | _ \<Rightarrow> False),
       d_infinity = Infinite,
       d_bits = (\<lambda>a. case a of Finite x \<Rightarrow> word_of_int \<lfloor>x * 2 ^ 1074\<rfloor>
                       | Infinite \<Rightarrow> 0x7FF0000000000000),
       d_of_bits = (\<lambda>w. Finite (real (unat w) / 2 ^ 1074)) \<rparr>"

definition zero_stat :: stat_t where
  "zero_stat = \<lparr> name = [], group = 0, type = stat_uint64, aggregate = False, data = 0 \<rparr>"

definition zero_table :: stats_table where
  "zero_table = (\<lambda>_. zero_stat)"

definition zero_proxy :: "exact Proxy" where
  "zero_proxy =
     \<lparr> stats = (\<lambda>_. zero_stat), stats_bin = (\<lambda>_ _. 0), stats_num_within_window = (\<lambda>_. 0),
       num_bins_used = 0, destinationMap = [], fibersAllocated = 0, fibersPoolSize = 0,
       stackHighWatermark = 0, durationUs = Finite 0, queueNotifyPeriod = Finite 0,
       being_destroyed = False \<rparr>"

definition router_of :: "exact Proxy list \<Rightarrow> exact McrouterInstanceBase" where
  "router_of ps = \<lparr> proxies = ps, startTime = 0, lastConfigAttempt = 0, configFailures = 0,
                    getSuspectServersCount = 0, getSuspectServers = [] \<rparr>"

text \<open>Shards that have used two bins: \<open>peak_S\<close> holds 1 in bin 0, \<open>peak_T_same\<close> holds 2
  in bin 0 and \<open>peak_T_other\<close> holds 2 in bin 1. \<open>peak_S_short\<close> has used one bin and
  holds 1 in it.\<close>

definition peak_S :: "exact Proxy" where
  "peak_S = zero_proxy\<lparr> num_bins_used := 2, stats_bin := (\<lambda>i j. if j = 0 then 1 else 0) \<rparr>"

definition peak_T_same :: "exact Proxy" where
  "peak_T_same = zero_proxy\<lparr> num_bins_used := 2, stats_bin := (\<lambda>i j. if j = 0 then 2 else 0) \<rparr>"

definition peak_S_short :: "exact Proxy" where
  "peak_S_short = zero_proxy\<lparr> num_bins_used := 1, stats_bin := (\<lambda>i j. if j = 0 then 1 else 0) \<rparr>"

definition peak_T_other :: "exact Proxy" where
  "peak_T_other = zero_proxy\<lparr> num_bins_used := 2, stats_bin := (\<lambda>i j. if j = 1 then 2 else 0) \<rparr>"

text \<open>A library for the examples: the four result codes that the files name are
  errors, and a key is valid when it is not empty.\<close>

definition sample_lib :: mc_lib where
  "sample_lib =
     \<lparr> mc_res_is_err = (\<lambda>r. case r of mc_res_other _ \<Rightarrow> False | _ \<Rightarrow> True),
       isKeyValid = (\<lambda>key. if key = [] then mc_req_err_other 0 else mc_req_err_valid),
       mc_req_err_to_string = (\<lambda>err. case err of mc_req_err_valid \<Rightarrow> ''valid'' | _ \<Rightarrow> ''invalid'') \<rparr>"

text \<open>A context that has just been created for a request with the key \<open>k\<close>.\<close>

definition created :: "exact exec" where
  "created =
     \<lparr> ctx = \<lparr> recording = False, replied = False, req = Some (McOtherRequest ''k'') \<rparr>,
       proxy = zero_proxy, enable_flush_cmd = False, f_calls = [], dispatched = [],
       deleted = False \<rparr>"

definition ok_reply :: Reply where
  "ok_reply = \<lparr> result = mc_res_other 0, message = [] \<rparr>"

definition err_reply :: Reply where
  "err_reply = \<lparr> result = mc_res_local_error, message = ''failed'' \<rparr>"

text \<open>The same context on a proxy that is being destroyed, and a recording context on
  that proxy.\<close>

definition torn_down :: "exact exec" where
  "torn_down = created\<lparr> proxy := zero_proxy\<lparr> being_destroyed := True \<rparr> \<rparr>"

definition recording_torn_down :: "exact exec" where
  "recording_torn_down =
     \<lparr> ctx = \<lparr> recording = True, replied = False, req = Some (McOtherRequest ''k'') \<rparr>,
       proxy = zero_proxy\<lparr> being_destroyed := True \<rparr>, enable_flush_cmd = False, f_calls = [],
       dispatched = [], deleted = False \<rparr>"

text \<open>Headers for the examples: group values, and a list of five slots. \<open>other_stat 0\<close>
  is a counter that is summed over the proxies.\<close>

definition sample_groups :: stat_groups where
  "sample_groups =
     \<lparr> mcproxy_stats = 0x1, all_stats = 0xffff, detailed_stats = 0x2, cmd_all_stats = 0x4,
       cmd_in_stats = 0x8, cmd_out_stats = 0x10, cmd_error_stats = 0x20, ods_stats = 0x40,
       server_stats = 0x10000, suspect_server_stats = 0x40000, count_stats = 0x200,
       outlier_stats = 0x400, rate_stats = 0x100, max_stats = 0x800, max_max_stats = 0x1000,
       unknown_stats = 0x10000000 \<rparr>"

definition sample_slot :: "string \<Rightarrow> 32 word \<Rightarrow> bool \<Rightarrow> stat_t" where
  "sample_slot nm g agg =
     \<lparr> name = nm, group = g, type = stat_uint64, aggregate = agg, data = 0 \<rparr>"

definition sample_hdr :: hdr where
  "sample_hdr =
     \<lparr> grp = sample_groups,
       MOVING_AVERAGE_BIN_SIZE_IN_SECOND = 1,
       MCROUTER_PACKAGE_STRING = ''mcrouter 1.0'',
       stat_list =
         [(num_suspect_servers_stat, sample_slot ''num_suspect_servers'' 0x1 False),
          (other_stat 0, sample_slot ''cmd_get_count'' 0x204 True),
          (ps_num_minor_faults_stat, sample_slot ''ps_num_minor_faults'' 0x2 False),
          (ps_num_major_faults_stat, sample_slot ''ps_num_major_faults'' 0x2 False),
          (ps_vsize_stat, sample_slot ''ps_vsize'' 0x2 False)] \<rparr>"

definition sample_env :: os_env where
  "sample_env =
     \<lparr> time_now = 1000, getpid = 42, getppid = 1,
       ru_utime_sec = 0, ru_utime_usec = 0, ru_stime_sec = 0, ru_stime_usec = 0,
       proc_stat = fopen_failed, sysconf_CLK_TCK = 100, sysconf_PAGESIZE = 4096,
       gStandaloneArgs = 0, c_str = (\<lambda>_. []) \<rparr>"

text \<open>The same list with the suspect count declared aggregatable and with a signed
  counter that is summed over the proxies, and a router of two shards that counts
  three suspect servers.\<close>

definition signed_slot :: "string \<Rightarrow> 32 word \<Rightarrow> bool \<Rightarrow> stat_t" where
  "signed_slot nm g agg = (sample_slot nm g agg)\<lparr> type := stat_int64 \<rparr>"

definition busy_hdr :: hdr where
  "busy_hdr =
     \<lparr> grp = sample_groups,
       MOVING_AVERAGE_BIN_SIZE_IN_SECOND = 1,
       MCROUTER_PACKAGE_STRING = ''mcrouter 1.0'',
       stat_list =
         [(num_suspect_servers_stat, sample_slot ''num_suspect_servers'' 0x1 True),
          (other_stat 0, sample_slot ''cmd_get_count'' 0x204 True),
          (other_stat 1, signed_slot ''signed_count'' 0x204 True),
          (ps_num_minor_faults_stat, sample_slot ''ps_num_minor_faults'' 0x2 False),
          (ps_num_major_faults_stat, sample_slot ''ps_num_major_faults'' 0x2 False),
          (ps_vsize_stat, sample_slot ''ps_vsize'' 0x2 False)] \<rparr>"

definition suspect_router :: "exact McrouterInstanceBase" where
  "suspect_router =
     \<lparr> proxies = [zero_proxy, zero_proxy], startTime = 0, lastConfigAttempt = 0,
       configFailures = 0, getSuspectServersCount = 3, getSuspectServers = [] \<rparr>"

text \<open>An environment in which \<^verbatim>\<open>fscanf\<close> converts two fields, 7 and 3, and then fails.\<close>

definition partial_env :: os_env where
  "partial_env = sample_env\<lparr> proc_stat := fscanf_stored [7, 3] \<rparr>"

text \<open>Two shards that hold the destination \<open>d\<close>: the first sees it knocked out, hard
  and soft, the second does not.\<close>

definition dest_of :: "bool \<Rightarrow> bool \<Rightarrow> exact ProxyDestination" where
  "dest_of hard soft =
     \<lparr> tracker_isHardTko = hard, tracker_isSoftTko = soft, stats_results = None,
       stats_state = kUp, stats_avgLatency = None, stats_retransPerKByte = Finite 0,
       getPendingRequestCount = 0, getInflightRequestCount = 0 \<rparr>"

definition tko_router :: "exact McrouterInstanceBase" where
  "tko_router =
     router_of [zero_proxy\<lparr> destinationMap := [(''d'', dest_of True True)] \<rparr>,
                zero_proxy\<lparr> destinationMap := [(''d'', dest_of False False)] \<rparr>]"

section \<open>Properties of the windowed counters\<close>

lemma fold_max_Max:
  "fold (\<lambda>j mx. max mx (f j)) xs (m::'a::linorder) = Max (insert m (f ` set xs))"
proof (induction xs arbitrary: m)
  case Nil
  then show ?case by simp
next
  case (Cons x xs)
  have "Max (insert (max m (f x)) (f ` set xs)) = Max (insert m (insert (f x) (f ` set xs)))"
    by (cases "f ` set xs = {}") (simp_all add: max.assoc)
  with Cons show ?case by simp
qed

lemma fold_add_sum_list:
  "fold (\<lambda>p s. s + g p) ps (a::'a::comm_monoid_add) = a + sum_list (map g ps)"
  by (induction ps arbitrary: a) (simp_all add: add.assoc)

lemma Max_insert_Max:
  assumes "finite X" "finite Y"
  shows "Max (insert (Max (insert (m::'a::linorder) X)) Y) = Max (insert m (X \<union> Y))"
proof (cases "Y = {}")
  case True
  then show ?thesis by simp
next
  case False
  have "Max (insert m (X \<union> Y)) = Max (insert m X \<union> Y)" by simp
  also have "\<dots> = max (Max (insert m X)) (Max Y)"
    using assms False by (intro Max_Un) simp_all
  also have "\<dots> = Max (insert (Max (insert m X)) Y)"
    using assms False by simp
  finally show ?thesis by simp
qed

lemma fold_fold_max_Max:
  "fold (\<lambda>j mx. fold (\<lambda>p mx. max mx (h p j)) ps mx) js (m::'a::linorder) =
     Max (insert m (\<Union>j\<in>set js. (\<lambda>p. h p j) ` set ps))"
proof (induction js arbitrary: m)
  case Nil
  then show ?case by simp
next
  case (Cons j js)
  have "fold (\<lambda>j mx. fold (\<lambda>p mx. max mx (h p j)) ps mx) (j # js) m =
        fold (\<lambda>j mx. fold (\<lambda>p mx. max mx (h p j)) ps mx) js (fold (\<lambda>p mx. max mx (h p j)) ps m)"
    by simp
  also have "\<dots> = Max (insert (fold (\<lambda>p mx. max mx (h p j)) ps m) (\<Union>j\<in>set js. (\<lambda>p. h p j) ` set ps))"
    by (rule Cons.IH)
  also have "\<dots> = Max (insert (Max (insert m ((\<lambda>p. h p j) ` set ps))) (\<Union>j\<in>set js. (\<lambda>p. h p j) ` set ps))"
    by (simp only: fold_max_Max)
  also have "\<dots> = Max (insert m ((\<lambda>p. h p j) ` set ps \<union> (\<Union>j\<in>set js. (\<lambda>p. h p j) ` set ps)))"
    by (rule Max_insert_Max) simp_all
  finally show ?case by simp
qed

lemma Max_shards_bins:
  fixes h :: "'p \<Rightarrow> 'j \<Rightarrow> 'a::linorder"
  assumes "finite P" "finite J"
  shows "Max (insert z (\<Union>j\<in>J. (\<lambda>p. h p j) ` P)) =
         Max (insert z ((\<lambda>p. Max (insert z (h p ` J))) ` P))"
proof (rule antisym)
  show "Max (insert z (\<Union>j\<in>J. (\<lambda>p. h p j) ` P)) \<le> Max (insert z ((\<lambda>p. Max (insert z (h p ` J))) ` P))"
  proof (rule Max.boundedI)
    fix a assume "a \<in> insert z (\<Union>j\<in>J. (\<lambda>p. h p j) ` P)"
    then consider "a = z" | p j where "p \<in> P" "j \<in> J" "a = h p j" by auto
    then show "a \<le> Max (insert z ((\<lambda>p. Max (insert z (h p ` J))) ` P))"
    proof cases
      case 1
      then show ?thesis using assms by simp
    next
      case 2
      have "a \<le> Max (insert z (h p ` J))" using 2 assms by simp
      also have "\<dots> \<le> Max (insert z ((\<lambda>p. Max (insert z (h p ` J))) ` P))"
        using 2 assms by (intro Max_ge) simp_all
      finally show ?thesis .
    qed
  qed (use assms in simp_all)
  show "Max (insert z ((\<lambda>p. Max (insert z (h p ` J))) ` P)) \<le> Max (insert z (\<Union>j\<in>J. (\<lambda>p. h p j) ` P))"
  proof (rule Max.boundedI)
    fix a assume "a \<in> insert z ((\<lambda>p. Max (insert z (h p ` J))) ` P)"
    then consider "a = z" | p where "p \<in> P" "a = Max (insert z (h p ` J))" by auto
    then show "a \<le> Max (insert z (\<Union>j\<in>J. (\<lambda>p. h p j) ` P))"
    proof cases
      case 1
      then show ?thesis using assms by simp
    next
      case 2
      have "Max (insert z (h p ` J)) \<in> insert z (h p ` J)"
        using assms by (intro Max_in) simp_all
      then have "a \<in> insert z (\<Union>j\<in>J. (\<lambda>p. h p j) ` P)" using 2 by auto
      then show ?thesis using assms by (intro Max_ge) simp_all
    qed
  qed (use assms in simp_all)
qed

lemma max_bin_below_Max:
  "max_bin_below p idx n = Max (insert 0 (stats_bin p idx ` {..< n}))"
  by (simp add: max_bin_below_def fold_max_Max lessThan_atLeast0)

lemma max_max_below:
  "stats_aggregate_max_max_value router idx =
     fold (\<lambda>p mx. max mx (max_bin_below p idx (nat (get_num_bins_used router))))
       (proxies router) 0"
  unfolding stats_aggregate_max_max_value_def max_bin_below_def
  by (simp only: fold_fold_max_Max fold_max_Max Max_shards_bins [OF finite_set finite_set])

lemma max_max_eq:
  assumes "same_bins_used router"
  shows "stats_aggregate_max_max_value router idx = max_of_shard_maxes router idx"
proof -
  have "fold (\<lambda>p mx. max mx (max_bin_below p idx (nat (get_num_bins_used router)))) ps m =
        fold (\<lambda>p mx. max mx (shard_max_bin p idx)) ps m"
    if "\<forall>p\<in>set ps. num_bins_used p = get_num_bins_used router" for ps and m :: uint64_t
    using that by (induction ps arbitrary: m) (simp_all add: shard_max_bin_def)
  with assms show ?thesis
    by (simp add: max_max_below max_of_shard_maxes_def same_bins_used_def list_all_iff)
qed

lemma max_value_eq:
  "stats_aggregate_max_value router idx =
     Max (insert 0 ((\<lambda>j. sum_list (map (\<lambda>p. stats_bin p idx j) (proxies router)))
                      ` {..< nat (get_num_bins_used router)}))"
  unfolding stats_aggregate_max_value_def
  by (simp add: fold_max_Max fold_add_sum_list lessThan_atLeast0)

lemma sum_list_map_nth:
  fixes f :: "'b \<Rightarrow> 'a::comm_monoid_add"
  shows "sum_list (map f xs) = (\<Sum>i<length xs. f (xs ! i))"
proof -
  have "sum_list (map f xs) = (\<Sum>i = 0 ..< length (map f xs). map f xs ! i)"
    by (rule sum_list_sum_nth)
  also have "\<dots> = (\<Sum>i<length xs. f (xs ! i))"
    by (intro sum.cong) (auto simp: lessThan_atLeast0)
  finally show ?thesis .
qed

lemma two_records_sum:
  assumes r: "two_records router idx n S js a T jt b" and j: "j < n"
  shows "sum_list (map (\<lambda>p. stats_bin p idx j) (proxies router)) =
           (if j = js then a else 0) + (if j = jt then b else 0)"
proof -
  let ?ps = "proxies router"
  have S: "S < length ?ps" and T: "T < length ?ps" and ST: "S \<noteq> T"
    using r by (simp_all add: two_records_def num_proxies_def)
  have bins: "stats_bin (?ps ! i) idx j =
        (if i = S \<and> j = js then a else if i = T \<and> j = jt then b else 0)" if "i < length ?ps" for i
    using r j that by (simp add: two_records_def num_proxies_def)
  have "sum_list (map (\<lambda>p. stats_bin p idx j) ?ps) = (\<Sum>i<length ?ps. stats_bin (?ps ! i) idx j)"
    by (rule sum_list_map_nth)
  also have "\<dots> = (\<Sum>i<length ?ps. (if i = S then (if j = js then a else 0) else 0) +
                                  (if i = T then (if j = jt then b else 0) else 0))"
    using ST by (intro sum.cong refl) (simp add: bins)
  also have "\<dots> = (if j = js then a else 0) + (if j = jt then b else 0)"
    using S T by (simp add: sum.distrib)
  finally show ?thesis .
qed

lemma max_two_records:
  assumes r: "two_records router idx (nat (get_num_bins_used router)) S js a T jt b"
    and ab: "a < b"
  shows "stats_aggregate_max_value router idx = (if js = jt then a + b else b)"
proof -
  let ?n = "nat (get_num_bins_used router)"
  let ?f = "\<lambda>j. sum_list (map (\<lambda>p. stats_bin p idx j) (proxies router))"
  have f: "?f j = (if j = js then a else 0) + (if j = jt then b else 0)" if "j < ?n" for j
    using r that by (rule two_records_sum)
  have js: "js < ?n" and jt: "jt < ?n" using r by (simp_all add: two_records_def)
  have eq: "stats_aggregate_max_value router idx = Max (insert 0 (?f ` {..< ?n}))"
    by (rule max_value_eq)
  show ?thesis
  proof (cases "js = jt")
    case True
    have "Max (insert 0 (?f ` {..< ?n})) = a + b"
    proof (rule Max_eqI)
      show "finite (insert 0 (?f ` {..< ?n}))" by simp
      show "y \<le> a + b" if "y \<in> insert 0 (?f ` {..< ?n})" for y
        using that True by (auto simp: f)
      have "?f js \<in> ?f ` {..< ?n}" using js by (intro imageI) simp
      then show "a + b \<in> insert 0 (?f ` {..< ?n})" using True js by (simp add: f)
    qed
    with eq True show ?thesis by simp
  next
    case False
    have "Max (insert 0 (?f ` {..< ?n})) = b"
    proof (rule Max_eqI)
      show "finite (insert 0 (?f ` {..< ?n}))" by simp
      show "y \<le> b" if "y \<in> insert 0 (?f ` {..< ?n})" for y
        using that False ab by (auto simp: f)
      have "?f jt \<in> ?f ` {..< ?n}" using jt by (intro imageI) simp
      then show "b \<in> insert 0 (?f ` {..< ?n})" using False jt by (simp add: f)
    qed
    with eq False show ?thesis by simp
  qed
qed

lemma max_max_two_records:
  assumes r: "two_records router idx (nat (get_num_bins_used router)) S js a T jt b"
    and ab: "a < b"
  shows "stats_aggregate_max_max_value router idx = b"
proof -
  let ?n = "nat (get_num_bins_used router)"
  let ?ps = "proxies router"
  let ?X = "insert 0 (\<Union>j\<in>set [0 ..< ?n]. (\<lambda>p. stats_bin p idx j) ` set ?ps)"
  have S: "S < length ?ps" and T: "T < length ?ps" and ST: "S \<noteq> T"
    and js: "js < ?n" and jt: "jt < ?n"
    using r by (simp_all add: two_records_def num_proxies_def)
  have bins: "stats_bin (?ps ! i) idx j =
        (if i = S \<and> j = js then a else if i = T \<and> j = jt then b else 0)"
    if "i < length ?ps" "j < ?n" for i j
    using r that by (simp add: two_records_def num_proxies_def)
  have eq: "stats_aggregate_max_max_value router idx = Max ?X"
    unfolding stats_aggregate_max_max_value_def by (rule fold_fold_max_Max)
  have "Max ?X = b"
  proof (rule Max_eqI)
    show "finite ?X" by simp
    show "y \<le> b" if "y \<in> ?X" for y
    proof -
      from that consider "y = 0" | j p where "j < ?n" "p \<in> set ?ps" "y = stats_bin p idx j"
        by auto
      then show ?thesis
      proof cases
        case 1
        then show ?thesis by simp
      next
        case 2
        from 2(2) obtain i where "i < length ?ps" "p = ?ps ! i" by (auto simp: in_set_conv_nth)
        moreover from ab have "a \<le> b" by simp
        ultimately show ?thesis using 2 by (simp add: bins)
      qed
    qed
    have "stats_bin (?ps ! T) idx jt = b" using T jt ST by (simp add: bins)
    moreover have "?ps ! T \<in> set ?ps" using T by simp
    ultimately have "b \<in> (\<lambda>p. stats_bin p idx jt) ` set ?ps" by force
    with jt show "b \<in> ?X" by auto
  qed
  with eq show ?thesis by simp
qed

text \<open>
  C6. A rate that is asked for while the count of used bins is zero is the double 0,
  and the division is not evaluated: for a shard's own rate the count is the shard's,
  for the aggregated rate it is the one that \<^verbatim>\<open>get_num_bins_used\<close> reads.
\<close>

theorem rate_before_first_rotation:
  "(num_bins_used pr = 0 \<longrightarrow> stats_rate_value D bin_sec router pr idx = d_of_int D 0) \<and>
   (get_num_bins_used router = 0 \<longrightarrow> stats_aggregate_rate_value D bin_sec router idx = d_of_int D 0)"
  by (simp add: stats_rate_value_def stats_aggregate_rate_value_def)

theorem rate_before_first_rotation_witness:
  "num_bins_used zero_proxy = 0 \<and>
   stats_rate_value exact_ops 1 (router_of [zero_proxy]) zero_proxy (other_stat 0) = Finite 0 \<and>
   get_num_bins_used (router_of [zero_proxy]) = 0 \<and>
   stats_aggregate_rate_value exact_ops 1 (router_of [zero_proxy]) (other_stat 0) = Finite 0"
  using rate_before_first_rotation [of zero_proxy exact_ops 1 "router_of [zero_proxy]" "other_stat 0"]
  by (simp add: zero_proxy_def router_of_def get_num_bins_used_def num_proxies_def getProxy_def
      exact_ops_def)

text \<open>
  C2, as stated, fails. The value of a max-policy slot is not the maximum across the
  shards of each shard's largest retained bin: with 1 in bin 0 of one shard and 2 in
  bin 0 of another, \<^verbatim>\<open>stats_aggregate_max_value\<close> is 3. And a record in a bin that the
  first shard has not used yet is not seen: with 1 in bin 0 of a first shard that has
  used one bin, and 2 in bin 1 of a second shard that has used two,
  \<^verbatim>\<open>stats_aggregate_max_value\<close> and \<^verbatim>\<open>stats_aggregate_max_max_value\<close> are both 1.
\<close>

theorem max_policy_counterexample:
  "stats_aggregate_max_value (router_of [peak_S, peak_T_same]) (other_stat 0) = 3 \<and>
   max_of_shard_maxes (router_of [peak_S, peak_T_same]) (other_stat 0) = 2 \<and>
   stats_aggregate_max_value (router_of [peak_S, peak_T_same]) (other_stat 0) \<noteq>
     max_of_shard_maxes (router_of [peak_S, peak_T_same]) (other_stat 0) \<and>
   stats_aggregate_max_value (router_of [peak_S_short, peak_T_other]) (other_stat 0) = 1 \<and>
   stats_aggregate_max_max_value (router_of [peak_S_short, peak_T_other]) (other_stat 0) = 1 \<and>
   max_of_shard_maxes (router_of [peak_S_short, peak_T_other]) (other_stat 0) = 2"
proof -
  have n: "nat (get_num_bins_used (router_of [peak_S, peak_T_same])) = 2"
    "nat (get_num_bins_used (router_of [peak_S_short, peak_T_other])) = 1"
    by (simp_all add: get_num_bins_used_def num_proxies_def getProxy_def router_of_def
        peak_S_def peak_S_short_def zero_proxy_def)
  have u: "[0 ..< 1] = [0]" "[0 ..< 2] = [0, 1]" by (simp_all add: upt_rec)
  have a: "stats_aggregate_max_value (router_of [peak_S, peak_T_same]) (other_stat 0) = 3"
    unfolding stats_aggregate_max_value_def n u
    by (simp add: router_of_def peak_S_def peak_T_same_def zero_proxy_def)
  have b: "max_of_shard_maxes (router_of [peak_S, peak_T_same]) (other_stat 0) = 2"
    by (simp add: max_of_shard_maxes_def shard_max_bin_def max_bin_below_def router_of_def
        peak_S_def peak_T_same_def zero_proxy_def u)
  have c: "stats_aggregate_max_value (router_of [peak_S_short, peak_T_other]) (other_stat 0) = 1"
    unfolding stats_aggregate_max_value_def n u
    by (simp add: router_of_def peak_S_short_def peak_T_other_def zero_proxy_def)
  have d: "stats_aggregate_max_max_value (router_of [peak_S_short, peak_T_other]) (other_stat 0) = 1"
    unfolding stats_aggregate_max_max_value_def n u
    by (simp add: router_of_def peak_S_short_def peak_T_other_def zero_proxy_def)
  have e: "max_of_shard_maxes (router_of [peak_S_short, peak_T_other]) (other_stat 0) = 2"
    by (simp add: max_of_shard_maxes_def shard_max_bin_def max_bin_below_def router_of_def
        peak_S_short_def peak_T_other_def zero_proxy_def u)
  show ?thesis by (simp add: a b c d e)
qed

text \<open>
  C2, amended. Let \<open>n\<close> be the count of bins that the first shard has used
  (\<^verbatim>\<open>get_num_bins_used\<close>); only the bins below \<open>n\<close> are read, on every shard.

  \<^item> The value of a max-policy slot (\<^verbatim>\<open>stats_aggregate_max_value\<close>) is the maximum, over
    the bins below \<open>n\<close>, of the 64-bit sum of the bin across the shards.
  \<^item> The value of a max-of-max slot (\<^verbatim>\<open>stats_aggregate_max_max_value\<close>) is the maximum
    across the shards of each shard's largest bin below \<open>n\<close>. When every shard has used
    \<open>n\<close> bins, this is the maximum across the shards of each shard's maximum single
    retained bin value.
  \<^item> With \<open>a\<close> in the bin \<open>js\<close> of the shard \<open>S\<close> and \<open>b > a\<close> in the bin \<open>jt\<close> of another
    shard \<open>T\<close>, both bins below \<open>n\<close>, and zero in every other bin below \<open>n\<close> of every
    shard, the max-of-max value is \<open>b\<close>, and the max value is \<open>b\<close> when the two bins
    differ and \<open>a + b\<close> when they are the same.
\<close>

theorem max_policy_aggregate:
  "stats_aggregate_max_value router idx =
     Max (insert 0 ((\<lambda>j. sum_list (map (\<lambda>p. stats_bin p idx j) (proxies router)))
                      ` {..< nat (get_num_bins_used router)})) \<and>
   stats_aggregate_max_max_value router idx =
     fold (\<lambda>p mx. max mx (max_bin_below p idx (nat (get_num_bins_used router))))
       (proxies router) 0 \<and>
   (same_bins_used router \<longrightarrow>
      stats_aggregate_max_max_value router idx = max_of_shard_maxes router idx) \<and>
   (two_records router idx (nat (get_num_bins_used router)) S js a T jt b \<and> a < b \<longrightarrow>
      stats_aggregate_max_value router idx = (if js = jt then a + b else b) \<and>
      stats_aggregate_max_max_value router idx = b)"
  using max_value_eq [of router idx] max_max_below [of router idx] max_max_eq [of router idx]
    max_two_records [of router idx S js a T jt b]
    max_max_two_records [of router idx S js a T jt b]
  by blast

theorem max_policy_aggregate_witness:
  "same_bins_used (router_of [peak_S, peak_T_other]) \<and>
   two_records (router_of [peak_S, peak_T_other]) (other_stat 0)
     (nat (get_num_bins_used (router_of [peak_S, peak_T_other]))) 0 0 1 1 1 2 \<and>
   (1::uint64_t) < 2 \<and>
   stats_aggregate_max_value (router_of [peak_S, peak_T_other]) (other_stat 0) = 2 \<and>
   stats_aggregate_max_max_value (router_of [peak_S, peak_T_other]) (other_stat 0) = 2 \<and>
   max_of_shard_maxes (router_of [peak_S, peak_T_other]) (other_stat 0) = 2"
proof -
  let ?r = "router_of [peak_S, peak_T_other]"
  have n: "nat (get_num_bins_used ?r) = Suc (Suc 0)"
    by (simp add: get_num_bins_used_def num_proxies_def getProxy_def router_of_def peak_S_def
        zero_proxy_def)
  have same: "same_bins_used ?r"
    by (simp add: same_bins_used_def get_num_bins_used_def num_proxies_def getProxy_def
        router_of_def peak_S_def peak_T_other_def zero_proxy_def)
  have len: "num_proxies ?r = Suc (Suc 0)" by (simp add: num_proxies_def router_of_def)
  have two: "two_records ?r (other_stat 0) (nat (get_num_bins_used ?r)) 0 0 1 1 1 2"
    unfolding two_records_def n len
    by (simp add: router_of_def peak_S_def peak_T_other_def zero_proxy_def All_less_Suc)
  have ab: "(1::uint64_t) < 2" by simp
  have f: "stats_aggregate_max_max_value ?r (other_stat 0) = max_of_shard_maxes ?r (other_stat 0) \<and>
        stats_aggregate_max_value ?r (other_stat 0) = (if (0::nat) = 1 then 1 + 2 else 2) \<and>
        stats_aggregate_max_max_value ?r (other_stat 0) = 2"
    using max_policy_aggregate [of ?r "other_stat 0" 0 0 1 1 1 2] same two ab
    by blast
  note eq = f [THEN conjunct1] and mm = f [THEN conjunct2, THEN conjunct2]
  from f [THEN conjunct2, THEN conjunct1]
  have mx: "stats_aggregate_max_value ?r (other_stat 0) = 2" by simp
  from eq mm have "max_of_shard_maxes ?r (other_stat 0) = 2" by (simp only:)
  with same two ab mx mm show ?thesis by (intro conjI)
qed

section \<open>Properties of the request context\<close>

lemma sendReply_noop:
  "recording (ctx s) \<or> replied (ctx s) \<Longrightarrow> sendReply L s reply = Inr s"
  by (auto simp: sendReply_def)

lemma sendReply_fault:
  "\<not> recording (ctx s) \<Longrightarrow> \<not> replied (ctx s) \<Longrightarrow> req (ctx s) = None \<Longrightarrow>
   sendReply L s reply = Inl NullDereference"
  by (simp add: sendReply_def sendReplyImpl_def and_then_def)

lemma counter_incr:
  "counter (proxy_stat_incr s n k) m = (if m = n then counter s n + k else counter s m)"
  by (simp add: counter_def proxy_stat_incr_def stat_incr_def data_uint64_def)

lemma proxy_stat_incr_fields:
  "ctx (proxy_stat_incr s n k) = ctx s"
  "f_calls (proxy_stat_incr s n k) = f_calls s"
  "dispatched (proxy_stat_incr s n k) = dispatched s"
  "deleted (proxy_stat_incr s n k) = deleted s"
  "enable_flush_cmd (proxy_stat_incr s n k) = enable_flush_cmd s"
  "being_destroyed (proxy (proxy_stat_incr s n k)) = being_destroyed (proxy s)"
  by (simp_all add: proxy_stat_incr_def)

lemma sendReply_effect:
  assumes "\<not> recording (ctx s)" "\<not> replied (ctx s)" "req (ctx s) = Some rq"
  shows "\<exists>s'. sendReply L s reply = Inr s' \<and>
           ctx s' = \<lparr> recording = False, replied = True, req = None \<rparr> \<and>
           f_calls s' = f_calls s @ [(rq, reply)] \<and>
           dispatched s' = dispatched s \<and> deleted s' = deleted s \<and>
           enable_flush_cmd s' = enable_flush_cmd s \<and>
           being_destroyed (proxy s') = being_destroyed (proxy s) \<and>
           (\<forall>n. counter s' n =
              (if n = request_replied_stat \<or> n = request_replied_count_stat then counter s n + 1
               else if n = request_error_stat \<or> n = request_error_count_stat then
                 (if mc_res_is_err L (result reply) then counter s n + 1 else counter s n)
               else if n = request_success_stat \<or> n = request_success_count_stat then
                 (if mc_res_is_err L (result reply) then counter s n else counter s n + 1)
               else counter s n))"
  using assms
  by (cases "mc_res_is_err L (result reply)")
    (simp_all add: sendReply_def sendReplyImpl_def and_then_def Let_def counter_incr
      proxy_stat_incr_fields, simp_all add: counter_def)


lemma sendReply_after:
  assumes "sendReply L s reply = Inr s1"
  shows "recording (ctx s1) \<or> replied (ctx s1)"
proof (cases "recording (ctx s) \<or> replied (ctx s)")
  case True
  with assms show ?thesis by (auto simp: sendReply_noop)
next
  case False
  show ?thesis
  proof (cases "req (ctx s)")
    case None
    with False assms show ?thesis by (simp add: sendReply_fault)
  next
    case (Some rq)
    with False sendReply_effect [of s rq L reply] assms show ?thesis by auto
  qed
qed

lemma sendReplies_noop:
  "recording (ctx s) \<or> replied (ctx s) \<Longrightarrow> sendReplies L s replies = Inr s"
  by (induction replies) (simp_all add: sendReply_noop and_then_def)

lemma sendReplies_first:
  "sendReplies L s (reply # replies) = sendReply L s reply"
proof (cases "sendReply L s reply")
  case (Inl e)
  then show ?thesis by (simp add: and_then_def)
next
  case (Inr s1)
  then have "sendReplies L s1 replies = Inr s1"
    by (intro sendReplies_noop sendReply_after)
  with Inr show ?thesis by (simp add: and_then_def)
qed

lemma sendReply_once:
  assumes "sendReply L s reply = Inr s'"
  shows "s' = s \<or>
         (\<exists>rq. f_calls s' = f_calls s @ [(rq, reply)] \<and> req (ctx s) = Some rq \<and>
               req (ctx s') = None \<and>
               counter s' request_replied_stat = counter s request_replied_stat + 1 \<and>
               counter s' request_replied_count_stat = counter s request_replied_count_stat + 1)"
proof (cases "recording (ctx s) \<or> replied (ctx s)")
  case True
  with assms show ?thesis by (auto simp: sendReply_noop)
next
  case False
  show ?thesis
  proof (cases "req (ctx s)")
    case None
    with False assms show ?thesis by (simp add: sendReply_fault)
  next
    case (Some rq)
    with False sendReply_effect [of s rq L reply] assms show ?thesis by auto
  qed
qed

text \<open>
  C3. Whatever the context and the sequence of invocations, the sequence does what
  its first invocation does alone, and an invocation on a context that is recording or
  has replied returns the state as it found it. So a sequence that returns has either
  changed nothing or has called the completion callback once, with the first reply,
  released the request and counted one reply. A sequence on a context that still holds
  its request, or is recording or has replied, does return.
\<close>

theorem sendReply_at_most_once:
  "sendReplies L s (reply # replies) = sendReply L s reply \<and>
   (recording (ctx s) \<or> replied (ctx s) \<longrightarrow> sendReply L s reply = Inr s) \<and>
   (sendReplies L s (reply # replies) = Inr s' \<longrightarrow>
      s' = s \<or>
      (\<exists>rq. f_calls s' = f_calls s @ [(rq, reply)] \<and> req (ctx s) = Some rq \<and>
            req (ctx s') = None \<and>
            counter s' request_replied_stat = counter s request_replied_stat + 1 \<and>
            counter s' request_replied_count_stat = counter s request_replied_count_stat + 1)) \<and>
   (recording (ctx s) \<or> replied (ctx s) \<or> req (ctx s) \<noteq> None \<longrightarrow>
      (\<exists>s1. sendReplies L s (reply # replies) = Inr s1))"
proof (intro conjI impI)
  show first: "sendReplies L s (reply # replies) = sendReply L s reply"
    by (rule sendReplies_first)
  show "sendReply L s reply = Inr s" if "recording (ctx s) \<or> replied (ctx s)"
    using that by (rule sendReply_noop)
  show "s' = s \<or>
      (\<exists>rq. f_calls s' = f_calls s @ [(rq, reply)] \<and> req (ctx s) = Some rq \<and>
            req (ctx s') = None \<and>
            counter s' request_replied_stat = counter s request_replied_stat + 1 \<and>
            counter s' request_replied_count_stat = counter s request_replied_count_stat + 1)"
    if "sendReplies L s (reply # replies) = Inr s'"
    using that first sendReply_once [of L s reply s'] by simp
  show "\<exists>s1. sendReplies L s (reply # replies) = Inr s1"
    if "recording (ctx s) \<or> replied (ctx s) \<or> req (ctx s) \<noteq> None"
  proof (cases "recording (ctx s) \<or> replied (ctx s)")
    case True
    then show ?thesis using sendReplies_noop [of s L "reply # replies"] by blast
  next
    case False
    with that obtain rq where "req (ctx s) = Some rq" by auto
    with False sendReply_effect [of s rq L reply] first show ?thesis by auto
  qed
qed

theorem sendReply_at_most_once_witness:
  "req (ctx created) \<noteq> None \<and>
   (\<exists>s1. sendReplies sample_lib created [ok_reply, err_reply, ok_reply] = Inr s1 \<and>
      f_calls s1 = [(McOtherRequest ''k'', ok_reply)] \<and> replied (ctx s1) \<and>
      sendReply sample_lib s1 err_reply = Inr s1)"
proof -
  have h: "req (ctx created) \<noteq> None" by (simp add: created_def)
  from sendReply_at_most_once [of sample_lib created ok_reply "[err_reply, ok_reply]"] h
  obtain s1 where s1: "sendReplies sample_lib created [ok_reply, err_reply, ok_reply] = Inr s1"
    by blast
  from sendReply_at_most_once [of sample_lib created ok_reply "[err_reply, ok_reply]" s1] s1
  have "s1 = created \<or>
        (\<exists>rq. f_calls s1 = f_calls created @ [(rq, ok_reply)] \<and> req (ctx created) = Some rq)"
    by blast
  moreover have "sendReply sample_lib created ok_reply \<noteq> Inr created"
    by (simp add: sendReply_def sendReplyImpl_def and_then_def created_def Let_def
        proxy_stat_incr_def)
  moreover have "sendReplies sample_lib created [ok_reply, err_reply, ok_reply] =
                 sendReply sample_lib created ok_reply"
    using sendReply_at_most_once [of sample_lib created ok_reply "[err_reply, ok_reply]"] by blast
  ultimately have calls: "f_calls s1 = [(McOtherRequest ''k'', ok_reply)]"
    using s1 by (auto simp: created_def)
  have "recording (ctx s1) \<or> replied (ctx s1)"
    using s1 \<open>sendReplies sample_lib created [ok_reply, err_reply, ok_reply] =
                 sendReply sample_lib created ok_reply\<close>
    by (intro sendReply_after [of sample_lib created ok_reply]) simp
  moreover have "recording (ctx s1) = False"
    using s1 by (simp add: sendReply_def sendReplyImpl_def and_then_def created_def Let_def
        proxy_stat_incr_def sample_lib_def ok_reply_def, auto)
  ultimately have rep: "replied (ctx s1)" by simp
  then have "sendReply sample_lib s1 err_reply = Inr s1"
    using sendReply_at_most_once [of sample_lib s1 err_reply "[]"] by blast
  with h s1 calls rep show ?thesis by blast
qed

text \<open>
  C4. The first effective \<^verbatim>\<open>sendReply\<close> of a context (one that is not recording, has not
  replied and holds its request) returns; it adds 1 to the replied counter and to the
  replied count, and 1 to each counter of the error pair when the result is classified
  as an error, of the success pair otherwise. The other pair, and every other counter,
  is left as it was.
\<close>

theorem reply_counters:
  assumes "\<not> recording (ctx s)" and "\<not> replied (ctx s)" and "req (ctx s) = Some rq"
  shows "\<exists>s'. sendReply L s reply = Inr s' \<and>
           counter s' request_replied_stat = counter s request_replied_stat + 1 \<and>
           counter s' request_replied_count_stat = counter s request_replied_count_stat + 1 \<and>
           (if mc_res_is_err L (result reply) then
              counter s' request_error_stat = counter s request_error_stat + 1 \<and>
              counter s' request_error_count_stat = counter s request_error_count_stat + 1 \<and>
              counter s' request_success_stat = counter s request_success_stat \<and>
              counter s' request_success_count_stat = counter s request_success_count_stat
            else
              counter s' request_success_stat = counter s request_success_stat + 1 \<and>
              counter s' request_success_count_stat = counter s request_success_count_stat + 1 \<and>
              counter s' request_error_stat = counter s request_error_stat \<and>
              counter s' request_error_count_stat = counter s request_error_count_stat) \<and>
           (\<forall>n. n \<notin> set reply_stats \<longrightarrow> counter s' n = counter s n)"
proof -
  from sendReply_effect [OF assms, of L reply] obtain s' where
    s': "sendReply L s reply = Inr s'" and
    c: "\<And>n. counter s' n =
              (if n = request_replied_stat \<or> n = request_replied_count_stat then counter s n + 1
               else if n = request_error_stat \<or> n = request_error_count_stat then
                 (if mc_res_is_err L (result reply) then counter s n + 1 else counter s n)
               else if n = request_success_stat \<or> n = request_success_count_stat then
                 (if mc_res_is_err L (result reply) then counter s n else counter s n + 1)
               else counter s n)"
    by blast
  show ?thesis
    by (rule exI [of _ s']) (simp add: s' c reply_stats_def)
qed

theorem reply_counters_witness:
  "\<not> recording (ctx created) \<and> \<not> replied (ctx created) \<and>
   req (ctx created) = Some (McOtherRequest ''k'') \<and>
   mc_res_is_err sample_lib (result err_reply) \<and>
   (\<exists>s'. sendReply sample_lib created err_reply = Inr s' \<and>
      counter s' request_replied_stat = 1 \<and> counter s' request_replied_count_stat = 1 \<and>
      counter s' request_error_stat = 1 \<and> counter s' request_error_count_stat = 1 \<and>
      counter s' request_success_stat = 0 \<and> counter s' request_success_count_stat = 0)"
proof -
  have h: "\<not> recording (ctx created)" "\<not> replied (ctx created)"
    "req (ctx created) = Some (McOtherRequest ''k'')"
    by (simp_all add: created_def)
  have e: "mc_res_is_err sample_lib (result err_reply)"
    by (simp add: sample_lib_def err_reply_def)
  have z: "counter created n = 0" for n
    by (simp add: counter_def created_def zero_proxy_def zero_stat_def data_uint64_def)
  from reply_counters [OF h, of sample_lib err_reply] e z h show ?thesis
    by auto
qed


lemma precheckRequest_True:
  "precheckRequest L s rq = Inr (s1, True) \<Longrightarrow> s1 = s"
  by (cases rq) (auto simp: and_then_def precheckKey_def Let_def split: sum.splits if_splits)

text \<open>
  C8, as stated, fails for a recording context. When the precheck of its request
  succeeds while the proxy is being destroyed, \<^verbatim>\<open>startProcessing\<close> calls \<^verbatim>\<open>sendReply\<close>,
  which returns at once: the completion callback is not called, the context has not
  replied, and it is deleted.
\<close>

theorem teardown_reply_counterexample:
  "req (ctx recording_torn_down) = Some (McOtherRequest ''k'') \<and>
   precheckRequest sample_lib recording_torn_down (McOtherRequest ''k'') =
     Inr (recording_torn_down, True) \<and>
   being_destroyed (proxy recording_torn_down) \<and>
   startProcessing sample_lib recording_torn_down =
     Inr (recording_torn_down\<lparr> deleted := True \<rparr>) \<and>
   f_calls (recording_torn_down\<lparr> deleted := True \<rparr>) = [] \<and>
   \<not> replied (ctx (recording_torn_down\<lparr> deleted := True \<rparr>))"
  by (simp add: recording_torn_down_def startProcessing_def sendReply_def precheckKey_def
      sample_lib_def and_then_def)

text \<open>
  C8, amended. When the precheck of the request that a context holds succeeds and the
  proxy is being destroyed, \<^verbatim>\<open>startProcessing\<close> returns without a call of
  \<^verbatim>\<open>dispatchRequest\<close>, and the context is deleted. A context that is not recording and
  has not yet replied has then replied exactly once: the completion callback has been
  called once, with the request and a reply whose result is \<^verbatim>\<open>mc_res_unknown\<close>, and
  every later \<^verbatim>\<open>sendReply\<close> does nothing. For a context that is recording, or has
  replied before, the callback is not called and the context is left as it was.
\<close>

theorem teardown_reply:
  "req (ctx s) = Some rq \<and> precheckRequest L s rq = Inr (s1, True) \<and> being_destroyed (proxy s) \<longrightarrow>
   (\<exists>s'. startProcessing L s = Inr s' \<and> dispatched s' = dispatched s \<and> deleted s' \<and>
      (\<not> recording (ctx s) \<and> \<not> replied (ctx s) \<longrightarrow>
         f_calls s' = f_calls s @ [(rq, \<lparr> result = mc_res_unknown, message = [] \<rparr>)] \<and>
         replied (ctx s') \<and> (\<forall>reply. sendReply L s' reply = Inr s')) \<and>
      (recording (ctx s) \<or> replied (ctx s) \<longrightarrow> f_calls s' = f_calls s \<and> ctx s' = ctx s))"
proof (intro impI, elim conjE)
  assume rq: "req (ctx s) = Some rq" and pre: "precheckRequest L s rq = Inr (s1, True)"
    and destroyed: "being_destroyed (proxy s)"
  from pre have s1: "s1 = s" by (rule precheckRequest_True)
  let ?unknown = "\<lparr> result = mc_res_unknown, message = [] \<rparr>"
  have start: "startProcessing L s =
                 and_then (sendReply L s ?unknown) (\<lambda>s. Inr (s\<lparr> deleted := True \<rparr>))"
    using rq pre destroyed by (simp add: startProcessing_def and_then_def s1)
  show "\<exists>s'. startProcessing L s = Inr s' \<and> dispatched s' = dispatched s \<and> deleted s' \<and>
      (\<not> recording (ctx s) \<and> \<not> replied (ctx s) \<longrightarrow>
         f_calls s' = f_calls s @ [(rq, ?unknown)] \<and>
         replied (ctx s') \<and> (\<forall>reply. sendReply L s' reply = Inr s')) \<and>
      (recording (ctx s) \<or> replied (ctx s) \<longrightarrow> f_calls s' = f_calls s \<and> ctx s' = ctx s)"
  proof (cases "recording (ctx s) \<or> replied (ctx s)")
    case True
    then have "startProcessing L s = Inr (s\<lparr> deleted := True \<rparr>)"
      by (simp add: start sendReply_noop and_then_def)
    with True show ?thesis by auto
  next
    case False
    with sendReply_effect [of s rq L ?unknown] rq obtain s2 where
      s2: "sendReply L s ?unknown = Inr s2" and
      c: "ctx s2 = \<lparr> recording = False, replied = True, req = None \<rparr>" and
      f: "f_calls s2 = f_calls s @ [(rq, ?unknown)]" and
      d: "dispatched s2 = dispatched s"
      by blast
    have "startProcessing L s = Inr (s2\<lparr> deleted := True \<rparr>)"
      by (simp add: start s2 and_then_def)
    moreover have "sendReply L (s2\<lparr> deleted := True \<rparr>) reply = Inr (s2\<lparr> deleted := True \<rparr>)" for reply
      by (rule sendReply_noop) (simp add: c)
    ultimately show ?thesis using False c f d by simp
  qed
qed

theorem teardown_reply_witness:
  "req (ctx torn_down) = Some (McOtherRequest ''k'') \<and>
   precheckRequest sample_lib torn_down (McOtherRequest ''k'') = Inr (torn_down, True) \<and>
   being_destroyed (proxy torn_down) \<and>
   \<not> recording (ctx torn_down) \<and> \<not> replied (ctx torn_down) \<and>
   (\<exists>s'. startProcessing sample_lib torn_down = Inr s' \<and> dispatched s' = [] \<and> deleted s' \<and>
      f_calls s' = [(McOtherRequest ''k'', \<lparr> result = mc_res_unknown, message = [] \<rparr>)] \<and>
      replied (ctx s'))"
proof -
  have h: "req (ctx torn_down) = Some (McOtherRequest ''k'') \<and>
     precheckRequest sample_lib torn_down (McOtherRequest ''k'') = Inr (torn_down, True) \<and>
     being_destroyed (proxy torn_down)"
    by (simp add: torn_down_def created_def precheckKey_def sample_lib_def)
  have l: "\<not> recording (ctx torn_down) \<and> \<not> replied (ctx torn_down)"
    by (simp add: torn_down_def created_def)
  have e: "dispatched torn_down = []" "f_calls torn_down = []"
    by (simp_all add: torn_down_def created_def)
  from teardown_reply [of torn_down "McOtherRequest ''k''" sample_lib torn_down] h l
  obtain s' where "startProcessing sample_lib torn_down = Inr s'"
    "dispatched s' = dispatched torn_down" "deleted s'"
    "f_calls s' = f_calls torn_down @ [(McOtherRequest ''k'', \<lparr> result = mc_res_unknown, message = [] \<rparr>)]"
    "replied (ctx s')"
    by blast
  with h l e show ?thesis by auto
qed

section \<open>Properties of the statistics query\<close>

text \<open>
  C9. Whatever the headers, the router, the shard, the operating system and the stack
  hold, the query for the token \<open>version\<close> returns one pair, the name
  \<open>mcrouter-version\<close> with the package string, and never prepares a snapshot.
\<close>

theorem version_reply:
  "stats_reply D H router pr env stack ''version'' =
     Inr (StatsOk [(''mcrouter-version'', V_string (MCROUTER_PACKAGE_STRING H))], None)"
  by (simp add: stats_reply_def)

theorem version_reply_witness:
  "stats_reply exact_ops sample_hdr (router_of [zero_proxy]) zero_proxy sample_env
     zero_table ''version'' =
     Inr (StatsOk [(''mcrouter-version'', V_string ''mcrouter 1.0'')], None)"
  using version_reply [of exact_ops sample_hdr "router_of [zero_proxy]" zero_proxy sample_env
      zero_table]
  by (simp add: sample_hdr_def)

text \<open>
  C5. For a token that is neither \<open>version\<close> nor one that \<^verbatim>\<open>stat_parse_group_str\<close>
  recognizes, the query returns the client error with the message
  \<open>bad stats command\<close>, whatever the router, the shard and the operating system hold,
  and never prepares a snapshot.
\<close>

theorem unknown_group_reply:
  "group_str \<noteq> ''version'' \<and> group_str \<notin> set group_tokens \<longrightarrow>
   stats_reply D H router pr env stack group_str =
     Inr (StatsError mc_res_client_error ''bad stats command'', None)"
  by (simp add: stats_reply_def stat_parse_group_str_def group_tokens_def)

theorem unknown_group_reply_witness:
  "''bogus'' \<noteq> ''version'' \<and> ''bogus'' \<notin> set group_tokens \<and>
   stats_reply exact_ops sample_hdr (router_of [zero_proxy]) zero_proxy sample_env
     zero_table ''bogus'' =
     Inr (StatsError mc_res_client_error ''bad stats command'', None)"
proof -
  have h: "''bogus'' \<noteq> ''version'' \<and> ''bogus'' \<notin> set group_tokens"
    by (simp add: group_tokens_def)
  with unknown_group_reply [of "''bogus''" exact_ops sample_hdr "router_of [zero_proxy]"
      zero_proxy sample_env zero_table]
  show ?thesis by blast
qed

section \<open>Properties of the destination snapshots\<close>

lemma map_of_at_key:
  "map_of (at_key D key f m) k =
     (if k = key then Some (f (case map_of m key of None \<Rightarrow> ServerStat_init D | Some st \<Rightarrow> st))
      else map_of m k)"
  by (induction m) auto

lemma visit_destination_flags:
  "isHardTko (visit_destination D pdstn stat) = tracker_isHardTko pdstn"
  "isSoftTko (visit_destination D pdstn stat) = tracker_isSoftTko pdstn"
  by (simp_all add: visit_destination_def Let_def split: option.splits)

lemma fold_visit_flags:
  "vs \<noteq> [] \<Longrightarrow>
   isHardTko (fold (visit_destination D) vs stat) = tracker_isHardTko (last vs) \<and>
   isSoftTko (fold (visit_destination D) vs stat) = tracker_isSoftTko (last vs)"
proof (induction vs arbitrary: stat)
  case Nil
  then show ?case by simp
next
  case (Cons v vs)
  show ?case
  proof (cases "vs = []")
    case True
    then show ?thesis by (simp add: visit_destination_flags)
  next
    case False
    with Cons.IH [of "visit_destination D v stat"] show ?thesis by simp
  qed
qed

lemma map_of_fold_at_key:
  "map_of (fold (\<lambda>(key, pdstn) m. at_key D key (visit_destination D pdstn) m) es m) k =
     (let vs = map snd (filter (\<lambda>(k', pdstn). k' = k) es) in
      if vs = [] then map_of m k
      else Some (fold (visit_destination D) vs
                   (case map_of m k of None \<Rightarrow> ServerStat_init D | Some st \<Rightarrow> st)))"
proof (induction es arbitrary: m)
  case Nil
  then show ?case by simp
next
  case (Cons e es)
  obtain key pdstn where e: "e = (key, pdstn)" by (cases e)
  show ?case
    by (simp add: e Cons.IH map_of_at_key Let_def)
qed

lemma fold_fold_concat:
  "fold (\<lambda>p m. fold f (g p) m) ps m = fold f (concat (map g ps)) m"
  by (induction ps arbitrary: m) simp_all

lemma collect_server_stats_concat:
  "collect_server_stats D router =
     fold (\<lambda>(key, pdstn) m. at_key D key (visit_destination D pdstn) m)
       (concat (map destinationMap (proxies router))) []"
  by (simp add: collect_server_stats_def fold_fold_concat)

lemma views_concat:
  "views router key =
     map snd (filter (\<lambda>(k, pdstn). k = key) (concat (map destinationMap (proxies router))))"
  by (simp add: views_def map_concat filter_concat comp_def)

lemma collect_server_stats_views:
  assumes "views router key \<noteq> []"
  shows "map_of (collect_server_stats D router) key =
           Some (fold (visit_destination D) (views router key) (ServerStat_init D))"
proof -
  let ?es = "concat (map destinationMap (proxies router))"
  let ?vs = "map snd (filter (\<lambda>(k', pdstn). k' = key) ?es)"
  have vs: "views router key = ?vs" by (rule views_concat)
  have "map_of (collect_server_stats D router) key =
          (let vs = ?vs in
           if vs = [] then map_of [] key
           else Some (fold (visit_destination D) vs
                        (case map_of [] key of None \<Rightarrow> ServerStat_init D | Some st \<Rightarrow> st)))"
    unfolding collect_server_stats_concat by (rule map_of_fold_at_key)
  also have "\<dots> = Some (fold (visit_destination D) ?vs (ServerStat_init D))"
    using assms unfolding vs Let_def by (simp only: if_False map_of.simps option.case)
  finally show ?thesis unfolding vs .
qed

lemma list_ex_agree:
  assumes "vs \<noteq> []" and "list_all (\<lambda>v. flag v = flag (last vs)) vs"
  shows "list_ex flag vs = flag (last vs)"
proof
  assume "list_ex flag vs"
  then obtain v where v: "v \<in> set vs" "flag v" unfolding list_ex_iff by blast
  from assms(2) v(1) have "flag v = flag (last vs)" unfolding list_all_iff by blast
  with v(2) show "flag (last vs)" by blast
next
  assume "flag (last vs)"
  moreover have "last vs \<in> set vs" using assms(1) by simp
  ultimately show "list_ex flag vs" unfolding list_ex_iff by blast
qed

text \<open>
  C1, as stated, fails: with the destination \<open>d\<close> knocked out in the view of the first
  shard and not in the view of the second, the aggregated snapshot of \<open>d\<close> has neither
  flag, although one shard sees each.
\<close>

theorem knockout_flags_counterexample:
  "flags_of (collect_server_stats exact_ops tko_router) = [(''d'', False, False)] \<and>
   view_flags tko_router ''d'' = [(True, True), (False, False)] \<and>
   any_view tracker_isHardTko tko_router ''d'' \<and>
   any_view tracker_isSoftTko tko_router ''d''"
proof -
  have c: "collect_server_stats exact_ops tko_router =
             [(''d'', visit_destination exact_ops (dest_of False False)
                       (visit_destination exact_ops (dest_of True True)
                          (ServerStat_init exact_ops)))]"
    by (simp add: collect_server_stats_def tko_router_def router_of_def zero_proxy_def)
  have v: "views tko_router ''d'' = [dest_of True True, dest_of False False]"
    by (simp add: views_def tko_router_def router_of_def zero_proxy_def)
  have f: "tracker_isHardTko (dest_of hard soft) = hard" "tracker_isSoftTko (dest_of hard soft) = soft"
    for hard soft
    by (simp_all add: dest_of_def)
  show ?thesis
    by (simp add: c v f visit_destination_flags any_view_def flags_of_def view_flags_def)
qed



text \<open>
  C1, amended. For every destination that some shard holds, the hard-knockout and
  soft-knockout flags of its aggregated snapshot are those of the view that the query
  visits last (the last shard, in the order of the proxies, that holds the
  destination); they are the logical OR of the shards' views whenever the views agree.
\<close>

theorem knockout_flags_last_view:
  "views router key \<noteq> [] \<longrightarrow>
   (\<exists>stat. map_of (collect_server_stats D router) key = Some stat \<and>
      isHardTko stat = tracker_isHardTko (last (views router key)) \<and>
      isSoftTko stat = tracker_isSoftTko (last (views router key)) \<and>
      (list_all (\<lambda>v. tracker_isHardTko v = tracker_isHardTko (last (views router key)))
         (views router key) \<longrightarrow>
       isHardTko stat = any_view tracker_isHardTko router key) \<and>
      (list_all (\<lambda>v. tracker_isSoftTko v = tracker_isSoftTko (last (views router key)))
         (views router key) \<longrightarrow>
       isSoftTko stat = any_view tracker_isSoftTko router key))"
proof
  assume ne: "views router key \<noteq> []"
  let ?stat = "fold (visit_destination D) (views router key) (ServerStat_init D)"
  have "map_of (collect_server_stats D router) key = Some ?stat"
    using ne by (rule collect_server_stats_views)
  moreover have
    "isHardTko ?stat = tracker_isHardTko (last (views router key)) \<and>
     isSoftTko ?stat = tracker_isSoftTko (last (views router key))"
    using ne by (rule fold_visit_flags)
  ultimately show "\<exists>stat. map_of (collect_server_stats D router) key = Some stat \<and>
      isHardTko stat = tracker_isHardTko (last (views router key)) \<and>
      isSoftTko stat = tracker_isSoftTko (last (views router key)) \<and>
      (list_all (\<lambda>v. tracker_isHardTko v = tracker_isHardTko (last (views router key)))
         (views router key) \<longrightarrow>
       isHardTko stat = any_view tracker_isHardTko router key) \<and>
      (list_all (\<lambda>v. tracker_isSoftTko v = tracker_isSoftTko (last (views router key)))
         (views router key) \<longrightarrow>
       isSoftTko stat = any_view tracker_isSoftTko router key)"
    using ne list_ex_agree [of "views router key"] unfolding any_view_def by blast
qed

theorem knockout_flags_last_view_witness:
  "views tko_router ''d'' \<noteq> [] \<and>
   last (views tko_router ''d'') = dest_of False False \<and>
   (\<exists>stat. map_of (collect_server_stats exact_ops tko_router) ''d'' = Some stat \<and>
      isHardTko stat = False \<and> isSoftTko stat = False)"
proof -
  have v: "views tko_router ''d'' = [dest_of True True, dest_of False False]"
    by (simp add: views_def tko_router_def router_of_def zero_proxy_def)
  then have ne: "views tko_router ''d'' \<noteq> []" by simp
  from knockout_flags_last_view [of tko_router "''d''" exact_ops] ne
  obtain stat where "map_of (collect_server_stats exact_ops tko_router) ''d'' = Some stat"
    "isHardTko stat = tracker_isHardTko (last (views tko_router ''d''))"
    "isSoftTko stat = tracker_isSoftTko (last (views tko_router ''d''))"
    by blast
  then show ?thesis by (auto simp: v dest_of_def)
qed

section \<open>Properties of the snapshot\<close>

lemma frame_refl: "frame ns tbl tbl"
  by (simp add: frame_def)

lemma frame_trans: "frame ns a b \<Longrightarrow> frame ns b c \<Longrightarrow> frame ns a c"
  by (simp add: frame_def)

lemma frame_mono: "set ns \<subseteq> set ms \<Longrightarrow> frame ns a b \<Longrightarrow> frame ms a b"
  by (auto simp: frame_def)

lemma frame_set:
  assumes "frame ns a b" and "n \<in> set ns"
  shows "frame ns a (set_string b n s)" and "frame ns a (set_uint64 b n u)"
    and "frame ns a (set_int64 b n i)" and "frame ns a (set_dbl D b n d)"
  using assms
  by (auto simp: frame_def set_string_def set_uint64_def set_int64_def set_dbl_def)

lemma frame_shape:
  assumes "frame ns a b"
  shows "type (b m) = type (a m)" "aggregate (b m) = aggregate (a m)" "group (b m) = group (a m)"
  using assms by (simp_all add: frame_def)

lemma frame_same: "frame ns a b \<Longrightarrow> m \<notin> set ns \<Longrightarrow> b m = a m"
  by (simp add: frame_def)

lemma set_read:
  "data (set_uint64 tbl n u m) = (if m = n then u else data (tbl m))"
  "data (set_int64 tbl n i m) = (if m = n then i else data (tbl m))"
  "data (set_string tbl n s m) = (if m = n then s else data (tbl m))"
  "data (set_dbl D tbl n d m) = (if m = n then d_bits D d else data (tbl m))"
  by (simp_all add: set_string_def set_uint64_def set_int64_def set_dbl_def)

lemma set_shape:
  "type (set_uint64 tbl n u m) = type (tbl m)"
  "type (set_int64 tbl n i m) = type (tbl m)"
  "type (set_dbl D tbl n d m) = type (tbl m)"
  "aggregate (set_uint64 tbl n u m) = aggregate (tbl m)"
  "aggregate (set_int64 tbl n i m) = aggregate (tbl m)"
  "aggregate (set_dbl D tbl n d m) = aggregate (tbl m)"
  "group (set_uint64 tbl n u m) = group (tbl m)"
  "group (set_int64 tbl n i m) = group (tbl m)"
  "group (set_dbl D tbl n d m) = group (tbl m)"
  by (simp_all add: set_uint64_def set_int64_def set_dbl_def)

lemma set_ratios_frame:
  assumes "type (tbl num_suspect_servers_stat) = stat_uint64"
  shows "\<exists>tbl'. set_ratios D router tbl = Inr tbl' \<and> frame computed_stats tbl tbl'"
proof -
  have mem: "num_suspect_servers_stat \<in> set computed_stats"
    "destination_batch_size_stat \<in> set computed_stats"
    "retrans_per_kbyte_avg_stat \<in> set computed_stats"
    "outstanding_route_get_avg_queue_size_stat \<in> set computed_stats"
    "outstanding_route_get_avg_wait_time_sec_stat \<in> set computed_stats"
    "outstanding_route_update_avg_queue_size_stat \<in> set computed_stats"
    "outstanding_route_update_avg_wait_time_sec_stat \<in> set computed_stats"
    by (simp_all add: computed_stats_def)
  show ?thesis
    using assms
    by (simp add: set_ratios_def stat_set_uint64_def and_then_def Let_def)
      (intro conjI impI frame_set frame_refl mem)
qed

lemma set_ratios_suspect:
  assumes "set_ratios D router tbl = Inr tbl'"
  shows "data (tbl' num_suspect_servers_stat) = getSuspectServersCount router"
  using assms
  by (auto simp: set_ratios_def stat_set_uint64_def and_then_def Let_def set_read
      split: if_splits)

lemma set_process_facts_frame:
  "frame computed_stats tbl (set_process_facts D router env tbl)"
proof -
  have mem: "commandargs_stat \<in> set computed_stats" "time_stat \<in> set computed_stats"
    "start_time_stat \<in> set computed_stats" "uptime_stat \<in> set computed_stats"
    "config_age_stat \<in> set computed_stats" "config_last_success_stat \<in> set computed_stats"
    "config_last_attempt_stat \<in> set computed_stats" "config_failures_stat \<in> set computed_stats"
    "pid_stat \<in> set computed_stats" "parent_pid_stat \<in> set computed_stats"
    "rusage_user_stat \<in> set computed_stats" "rusage_system_stat \<in> set computed_stats"
    by (simp_all add: computed_stats_def)
  show ?thesis
    unfolding set_process_facts_def Let_def
    by (intro frame_set frame_refl mem)
qed

lemma set_process_facts_suspect:
  "data (set_process_facts D router env tbl num_suspect_servers_stat) =
     data (tbl num_suspect_servers_stat)"
  by (simp add: set_process_facts_def Let_def set_read)

lemma set_proc_stat_frame:
  "frame proc_stats tbl (set_proc_stat D env tbl)"
proof -
  have mem: "ps_num_minor_faults_stat \<in> set proc_stats" "ps_num_major_faults_stat \<in> set proc_stats"
    "ps_user_time_sec_stat \<in> set proc_stats" "ps_system_time_sec_stat \<in> set proc_stats"
    "ps_rss_stat \<in> set proc_stats" "ps_vsize_stat \<in> set proc_stats"
    by (simp_all add: proc_stats_def)
  show ?thesis
    unfolding set_proc_stat_def Let_def
    by (intro frame_set frame_refl mem)
qed

lemma set_proc_stat_read:
  "data (set_proc_stat D env tbl ps_num_minor_faults_stat) =
     num_minor_faults (snd (get_proc_stat D env))"
  "data (set_proc_stat D env tbl ps_num_major_faults_stat) =
     num_major_faults (snd (get_proc_stat D env))"
  "data (set_proc_stat D env tbl ps_user_time_sec_stat) =
     d_bits D (user_time_sec (snd (get_proc_stat D env)))"
  "data (set_proc_stat D env tbl ps_system_time_sec_stat) =
     d_bits D (system_time_sec (snd (get_proc_stat D env)))"
  "data (set_proc_stat D env tbl ps_rss_stat) = rss (snd (get_proc_stat D env))"
  "data (set_proc_stat D env tbl ps_vsize_stat) = vsize (snd (get_proc_stat D env))"
  by (simp_all add: set_proc_stat_def Let_def set_read)

lemma add_fiber_stats_frame:
  "frame fiber_stats a b \<Longrightarrow> frame fiber_stats a (add_fiber_stats D pr b)"
proof -
  have mem: "fibers_allocated_stat \<in> set fiber_stats" "fibers_pool_size_stat \<in> set fiber_stats"
    "fibers_stack_high_watermark_stat \<in> set fiber_stats" "duration_us_stat \<in> set fiber_stats"
    "client_queue_notify_period_stat \<in> set fiber_stats"
    by (simp_all add: fiber_stats_def)
  assume "frame fiber_stats a b"
  then show ?thesis
    unfolding add_fiber_stats_def Let_def
    by (intro frame_set mem)
qed

lemma fold_add_fiber_stats_frame:
  "frame fiber_stats a b \<Longrightarrow> frame fiber_stats a (fold (add_fiber_stats D) prs b)"
  by (induction prs arbitrary: b) (simp_all add: add_fiber_stats_frame)

lemma set_fiber_stats_frame:
  "frame fiber_stats tbl (set_fiber_stats D router tbl)"
proof -
  have mem: "fibers_allocated_stat \<in> set fiber_stats" "fibers_pool_size_stat \<in> set fiber_stats"
    "fibers_stack_high_watermark_stat \<in> set fiber_stats" "duration_us_stat \<in> set fiber_stats"
    "client_queue_notify_period_stat \<in> set fiber_stats"
    by (simp_all add: fiber_stats_def)
  show ?thesis
    unfolding set_fiber_stats_def Let_def
    by (intro conjI impI frame_set fold_add_fiber_stats_frame frame_refl mem
        if_split [where P = "frame fiber_stats tbl", THEN iffD2])
qed

lemma summed_slot_Nil: "summed_slot D [] i s = s"
  by (cases "type s") (simp_all add: summed_slot_def dbl_sum_def)

lemma summed_slot_uint64:
  "type s = stat_uint64 \<Longrightarrow>
   data (summed_slot D prs i s) = data s + sum_list (map (\<lambda>p. data (stats p i)) prs)"
  by (simp add: summed_slot_def)

lemma summed_slot_shape:
  "type (summed_slot D prs i s) = type s"
  "aggregate (summed_slot D prs i s) = aggregate s"
  "group (summed_slot D prs i s) = group s"
  by (cases "type s"; simp add: summed_slot_def)+

lemma aggregate_stat_summed:
  "prs = [] \<or> type (tbl i) \<noteq> stat_string \<Longrightarrow>
   aggregate_stat D i prs tbl = Inr (tbl(i := summed_slot D prs i (tbl i)))"
proof (induction prs arbitrary: tbl)
  case Nil
  then show ?case by (simp add: summed_slot_Nil)
next
  case (Cons pr prs)
  then have ns: "type (tbl i) \<noteq> stat_string" by simp
  show ?case
  proof (cases "type (tbl i)")
    case stat_string
    with ns show ?thesis by simp
  next
    case stat_uint64
    let ?t = "set_uint64 tbl i (data_uint64 (tbl i) + data_uint64 (stats pr i))"
    have "aggregate_stat D i prs ?t = Inr (?t(i := summed_slot D prs i (?t i)))"
      using stat_uint64 by (intro Cons.IH) (simp add: set_shape)
    moreover have "?t(i := summed_slot D prs i (?t i)) = tbl(i := summed_slot D (pr # prs) i (tbl i))"
      using stat_uint64
      by (intro ext) (simp add: summed_slot_def set_uint64_def data_uint64_def add.assoc)
    moreover have "aggregate_stat D i (pr # prs) tbl = aggregate_stat D i prs ?t"
      using stat_uint64 by simp
    ultimately show ?thesis by (simp only:)
  next
    case stat_int64
    let ?t = "set_int64 tbl i (data_int64 (tbl i) + data_int64 (stats pr i))"
    have "aggregate_stat D i prs ?t = Inr (?t(i := summed_slot D prs i (?t i)))"
      using stat_int64 by (intro Cons.IH) (simp add: set_shape)
    moreover have "?t(i := summed_slot D prs i (?t i)) = tbl(i := summed_slot D (pr # prs) i (tbl i))"
      using stat_int64
      by (intro ext) (simp add: summed_slot_def set_int64_def data_int64_def add.assoc)
    moreover have "aggregate_stat D i (pr # prs) tbl = aggregate_stat D i prs ?t"
      using stat_int64 by simp
    ultimately show ?thesis by (simp only:)
  next
    case stat_double
    let ?t = "set_dbl D tbl i (d_add D (data_dbl D (tbl i)) (data_dbl D (stats pr i)))"
    have "aggregate_stat D i prs ?t = Inr (?t(i := summed_slot D prs i (?t i)))"
      using stat_double by (intro Cons.IH) (simp add: set_shape)
    moreover have "?t(i := summed_slot D prs i (?t i)) = tbl(i := summed_slot D (pr # prs) i (tbl i))"
      using stat_double
      by (intro ext) (simp add: summed_slot_def set_dbl_def dbl_sum_def data_dbl_def)
    moreover have "aggregate_stat D i (pr # prs) tbl = aggregate_stat D i prs ?t"
      using stat_double by simp
    ultimately show ?thesis by (simp only:)
  qed
qed

lemma aggregate_stats_count:
  assumes "prs = [] \<or>
     (\<forall>n\<in>set names. aggregate (tbl n) \<and> group (tbl n) AND rate = 0 \<longrightarrow> type (tbl n) \<noteq> stat_string)"
  shows "aggregate_stats D rate prs names tbl =
           Inr (\<lambda>m. if aggregate (tbl m) \<and> group (tbl m) AND rate = 0
                    then (summed_slot D prs m ^^ count_list names m) (tbl m) else tbl m)"
  using assms
proof (induction names arbitrary: tbl)
  case Nil
  then show ?case by (simp add: fun_eq_iff)
next
  case (Cons i rest)
  show ?case
  proof (cases "aggregate (tbl i) \<and> group (tbl i) AND rate = 0")
    case False
    have "aggregate_stats D rate prs (i # rest) tbl = aggregate_stats D rate prs rest tbl"
      by (simp only: aggregate_stats.simps False if_False)
    also have "\<dots> =
        Inr (\<lambda>m. if aggregate (tbl m) \<and> group (tbl m) AND rate = 0
                 then (summed_slot D prs m ^^ count_list rest m) (tbl m) else tbl m)"
      using Cons.prems by (intro Cons.IH) auto
    also have "(\<lambda>m. if aggregate (tbl m) \<and> group (tbl m) AND rate = 0
                 then (summed_slot D prs m ^^ count_list rest m) (tbl m) else tbl m) =
               (\<lambda>m. if aggregate (tbl m) \<and> group (tbl m) AND rate = 0
                 then (summed_slot D prs m ^^ count_list (i # rest) m) (tbl m) else tbl m)"
      using False by (intro ext) auto
    finally show ?thesis .
  next
    case True
    let ?t = "tbl(i := summed_slot D prs i (tbl i))"
    have ty: "prs = [] \<or> type (tbl i) \<noteq> stat_string" using Cons.prems True by auto
    have shape: "aggregate (?t n) = aggregate (tbl n)" "group (?t n) = group (tbl n)"
      "type (?t n) = type (tbl n)" for n
      by (simp_all add: summed_slot_shape)
    have "aggregate_stats D rate prs (i # rest) tbl = aggregate_stats D rate prs rest ?t"
      using True by (simp add: aggregate_stat_summed [where tbl = tbl and i = i, OF ty] and_then_def)
    also have "\<dots> = Inr (\<lambda>m. if aggregate (?t m) \<and> group (?t m) AND rate = 0
                 then (summed_slot D prs m ^^ count_list rest m) (?t m) else ?t m)"
      using Cons.prems by (intro Cons.IH) (simp only: shape list.set, blast)
    also have "(\<lambda>m. if aggregate (?t m) \<and> group (?t m) AND rate = 0
                 then (summed_slot D prs m ^^ count_list rest m) (?t m) else ?t m) =
               (\<lambda>m. if aggregate (tbl m) \<and> group (tbl m) AND rate = 0
                 then (summed_slot D prs m ^^ count_list (i # rest) m) (tbl m) else tbl m)"
      using True by (intro ext) (simp add: summed_slot_shape funpow_swap1)
    finally show ?thesis .
  qed
qed

lemma before_sum_frame:
  assumes ok: "prepares H router stack"
  shows "\<exists>tbl. set_ratios D router (init_stats H stack) = Inr tbl"
    and "frame computed_stats (init_stats H stack) (before_sum D H router env stack)"
    and "m \<in> set proc_stats \<Longrightarrow>
         before_sum D H router env stack m =
           set_proc_stat D env
             (set_process_facts D router env (projr (set_ratios D router (init_stats H stack)))) m"
    and "data (before_sum D H router env stack num_suspect_servers_stat) =
           getSuspectServersCount router"
proof -
  let ?t0 = "init_stats H stack"
  from ok have "type (?t0 num_suspect_servers_stat) = stat_uint64"
    by (simp add: prepares_def)
  then obtain t1 where t1: "set_ratios D router ?t0 = Inr t1" and f1: "frame computed_stats ?t0 t1"
    using set_ratios_frame by blast
  from t1 show "\<exists>tbl. set_ratios D router ?t0 = Inr tbl" by blast
  let ?t2 = "set_process_facts D router env t1"
  let ?t3 = "set_proc_stat D env ?t2"
  let ?t4 = "set_fiber_stats D router ?t3"
  have b: "before_sum D H router env stack = ?t4" by (simp add: before_sum_def t1)
  have sub: "set proc_stats \<subseteq> set computed_stats" "set fiber_stats \<subseteq> set computed_stats"
    by (simp_all add: proc_stats_def fiber_stats_def computed_stats_def)
  have f2: "frame computed_stats t1 ?t2" by (rule set_process_facts_frame)
  have f3: "frame computed_stats ?t2 ?t3" by (rule frame_mono [OF sub(1) set_proc_stat_frame])
  have f4: "frame computed_stats ?t3 ?t4" by (rule frame_mono [OF sub(2) set_fiber_stats_frame])
  have "frame computed_stats ?t0 ?t4"
    by (rule frame_trans [OF frame_trans [OF frame_trans [OF f1 f2] f3] f4])
  then show "frame computed_stats ?t0 (before_sum D H router env stack)" by (simp only: b)
  have "num_suspect_servers_stat \<notin> set fiber_stats" "num_suspect_servers_stat \<notin> set proc_stats"
    by (simp_all add: fiber_stats_def proc_stats_def)
  then have "?t4 num_suspect_servers_stat = ?t3 num_suspect_servers_stat"
    "?t3 num_suspect_servers_stat = ?t2 num_suspect_servers_stat"
    using set_fiber_stats_frame set_proc_stat_frame by (blast intro: frame_same)+
  then show "data (before_sum D H router env stack num_suspect_servers_stat) =
           getSuspectServersCount router"
    by (simp add: b set_process_facts_suspect set_ratios_suspect [OF t1])
  assume "m \<in> set proc_stats"
  then have "m \<notin> set fiber_stats" by (auto simp: proc_stats_def fiber_stats_def)
  with set_fiber_stats_frame have "?t4 m = ?t3 m" by (rule frame_same)
  then show "before_sum D H router env stack m =
           set_proc_stat D env
             (set_process_facts D router env (projr (set_ratios D router ?t0))) m"
    by (simp add: b t1)
qed

lemma before_sum_shape:
  assumes ok: "prepares H router stack"
  shows "summed H (before_sum D H router env stack n) = summed H (init_stats H stack n)"
    and "type (before_sum D H router env stack n) = type (init_stats H stack n)"
    and "n \<notin> set computed_stats \<Longrightarrow> before_sum D H router env stack n = init_stats H stack n"
proof -
  note f = before_sum_frame(2) [OF ok, where D = D and env = env]
  show "summed H (before_sum D H router env stack n) = summed H (init_stats H stack n)"
    by (simp add: summed_def frame_shape [OF f])
  show "type (before_sum D H router env stack n) = type (init_stats H stack n)"
    by (simp add: frame_shape [OF f])
  assume "n \<notin> set computed_stats"
  with f show "before_sum D H router env stack n = init_stats H stack n" by (rule frame_same)
qed

lemma prepare_stats_closed:
  assumes ok: "prepares H router stack"
  shows "prepare_stats D H router env stack =
           Inr (\<lambda>m. if summed H (before_sum D H router env stack m)
                    then (summed_slot D (proxies router) m ^^ count_list (map fst (stat_list H)) m)
                           (before_sum D H router env stack m)
                    else before_sum D H router env stack m)"
proof -
  let ?h = "before_sum D H router env stack"
  from before_sum_frame(1) [OF ok] obtain t1 where t1: "set_ratios D router (init_stats H stack) = Inr t1"
    by blast
  have typed: "proxies router = [] \<or>
     (\<forall>n\<in>set (map fst (stat_list H)).
        aggregate (?h n) \<and> group (?h n) AND rate_stats (grp H) = 0 \<longrightarrow> type (?h n) \<noteq> stat_string)"
  proof (cases "proxies router = []")
    case True
    then show ?thesis by simp
  next
    case False
    with ok have all: "\<forall>n\<in>set (map fst (stat_list H)).
        summed H (init_stats H stack n) \<longrightarrow> type (init_stats H stack n) \<noteq> stat_string"
      unfolding prepares_def list_all_iff by blast
    have "type (?h n) \<noteq> stat_string"
      if "n \<in> set (map fst (stat_list H))"
        and "aggregate (?h n) \<and> group (?h n) AND rate_stats (grp H) = 0" for n
    proof -
      from that(2) have "summed H (?h n)" by (simp add: summed_def)
      then have "summed H (init_stats H stack n)" by (simp only: before_sum_shape(1) [OF ok])
      with all that(1) show ?thesis by (simp only: before_sum_shape(2) [OF ok]) blast
    qed
    then show ?thesis by blast
  qed
  have "prepare_stats D H router env stack =
          aggregate_stats D (rate_stats (grp H)) (proxies router) (map fst (stat_list H)) ?h"
    by (simp add: prepare_stats_def before_sum_def t1 and_then_def)
  also have "\<dots> =
      Inr (\<lambda>m. if aggregate (?h m) \<and> group (?h m) AND rate_stats (grp H) = 0
               then (summed_slot D (proxies router) m ^^ count_list (map fst (stat_list H)) m) (?h m)
               else ?h m)"
    using typed by (rule aggregate_stats_count)
  finally show ?thesis by (simp add: summed_def)
qed

lemma prepare_stats_at:
  assumes ok: "prepares H router stack"
  shows "\<exists>tbl. prepare_stats D H router env stack = Inr tbl \<and>
           (\<forall>m. \<not> summed_in H stack m \<longrightarrow> tbl m = before_sum D H router env stack m) \<and>
           (\<forall>m. count_list (map fst (stat_list H)) m = 1 \<and> summed H (init_stats H stack m) \<longrightarrow>
                tbl m = summed_slot D (proxies router) m (before_sum D H router env stack m))"
proof (rule exI, intro conjI allI impI, rule prepare_stats_closed [OF ok])
  fix m
  let ?h = "before_sum D H router env stack"
  let ?F = "summed_slot D (proxies router) m"
  let ?c = "count_list (map fst (stat_list H)) m"
  show "(if summed H (?h m) then (?F ^^ ?c) (?h m) else ?h m) = ?h m" if "\<not> summed_in H stack m"
  proof (cases "summed H (?h m)")
    case False
    then show ?thesis by simp
  next
    case True
    then have "summed H (init_stats H stack m)" by (simp only: before_sum_shape(1) [OF ok])
    with that have "m \<notin> set (map fst (stat_list H))" by (simp add: summed_in_def)
    then have "?c = 0" by (simp add: count_list_0_iff)
    then show ?thesis by simp
  qed
  show "(if summed H (?h m) then (?F ^^ ?c) (?h m) else ?h m) = ?F (?h m)"
    if "?c = 1 \<and> summed H (init_stats H stack m)"
  proof -
    from that have "summed H (?h m)" by (simp only: before_sum_shape(1) [OF ok])
    with that show ?thesis by simp
  qed
qed

lemma prepare_stats_proc:
  assumes ok: "prepares H router stack"
    and ns: "list_all (\<lambda>n. \<not> summed_in H stack n) proc_stats"
  shows "\<exists>tbl. prepare_stats D H router env stack = Inr tbl \<and>
           data (tbl ps_num_minor_faults_stat) = num_minor_faults (snd (get_proc_stat D env)) \<and>
           data (tbl ps_num_major_faults_stat) = num_major_faults (snd (get_proc_stat D env)) \<and>
           data (tbl ps_user_time_sec_stat) = d_bits D (user_time_sec (snd (get_proc_stat D env))) \<and>
           data (tbl ps_system_time_sec_stat) =
             d_bits D (system_time_sec (snd (get_proc_stat D env))) \<and>
           data (tbl ps_rss_stat) = rss (snd (get_proc_stat D env)) \<and>
           data (tbl ps_vsize_stat) = vsize (snd (get_proc_stat D env))"
proof -
  let ?h = "before_sum D H router env stack"
  from prepare_stats_at [OF ok, of D env] obtain tbl where
    tbl: "prepare_stats D H router env stack = Inr tbl" and
    same: "\<And>m. \<not> summed_in H stack m \<Longrightarrow> tbl m = ?h m"
    by blast
  have p: "ps_num_minor_faults_stat \<in> set proc_stats" "ps_num_major_faults_stat \<in> set proc_stats"
    "ps_user_time_sec_stat \<in> set proc_stats" "ps_system_time_sec_stat \<in> set proc_stats"
    "ps_rss_stat \<in> set proc_stats" "ps_vsize_stat \<in> set proc_stats"
    by (simp_all add: proc_stats_def)
  have u: "\<not> summed_in H stack m" if "m \<in> set proc_stats" for m
    using ns that unfolding list_all_iff by blast
  note e = p [THEN u, THEN same]
  note v = p [THEN before_sum_frame(3) [OF ok, where D = D and env = env]]
  show ?thesis
    by (rule exI [of _ tbl]) (simp only: tbl e v set_proc_stat_read simp_thms)
qed

lemma get_proc_stat_failed:
  assumes "proc_read_failed env"
  shows "get_proc_stat D env =
           (- 1, \<lparr> num_minor_faults = stored env 0, num_major_faults = stored env 1,
                   user_time_sec = d_of_int D 0, system_time_sec = d_of_int D 0,
                   vsize = stored env 4, rss = 0 \<rparr>)"
proof (cases "proc_stat env")
  case fopen_failed
  then show ?thesis by (simp add: get_proc_stat_def stored_def)
next
  case (fscanf_stored fs)
  with assms have "length fs < 6" by (simp add: proc_read_failed_def)
  then have "min 6 (length fs) = length fs" by simp
  with fscanf_stored \<open>length fs < 6\<close> show ?thesis
    by (auto simp: get_proc_stat_def stored_def Let_def Suc_le_eq)
qed

lemma sum_list_map_update:
  fixes f :: "'b \<Rightarrow> 'a::ab_group_add"
  shows "j < length xs \<Longrightarrow> sum_list (map f (xs[j := y])) = sum_list (map f xs) + f y - f (xs ! j)"
proof (induction xs arbitrary: j)
  case Nil
  then show ?case by simp
next
  case (Cons x xs)
  then show ?case by (cases j) (simp_all add: algebra_simps)
qed

lemma incr_on_sum:
  assumes "S < length (proxies router)"
  shows "sum_list (map (\<lambda>p. data (stats p i)) (proxies (incr_on router S i k))) =
           sum_list (map (\<lambda>p. data (stats p i)) (proxies router)) + k"
    and "length (proxies (incr_on router S i k)) = length (proxies router)"
  using assms by (simp_all add: incr_on_def sum_list_map_update stat_incr_def data_uint64_def)

lemma prepares_incr_on:
  "prepares H (incr_on router S i k) stack = prepares H router stack"
  by (simp add: prepares_def incr_on_def)

lemma sum_list_zero:
  "list_all (\<lambda>p. f p = (0::uint64_t)) ps \<Longrightarrow> sum_list (map f ps) = 0"
  by (induction ps) simp_all

lemma sample_hdr_prepares: "prepares sample_hdr router zero_table"
  by (simp add: prepares_def init_stats_def sample_hdr_def sample_slot_def zero_table_def
      zero_stat_def)

lemma busy_hdr_prepares: "prepares busy_hdr router zero_table"
  by (simp add: prepares_def init_stats_def busy_hdr_def sample_slot_def signed_slot_def
      zero_table_def zero_stat_def)

text \<open>
  C7, as stated, fails for a slot that \<^verbatim>\<open>prepare_stats\<close> assigns itself before it sums
  over the proxies. With the suspect count declared aggregatable and initially 0, a
  router that counts three suspect servers, and the slot incremented by 5 on one shard
  and by 7 on the other, the snapshot holds 15 and not 12.
\<close>

theorem sum_policy_counterexample:
  "summed busy_hdr (init_stats busy_hdr zero_table num_suspect_servers_stat) \<and>
   type (init_stats busy_hdr zero_table num_suspect_servers_stat) = stat_uint64 \<and>
   data_uint64 (init_stats busy_hdr zero_table num_suspect_servers_stat) = 0 \<and>
   slot_uint64
     (prepare_stats exact_ops busy_hdr
        (incr_on (incr_on suspect_router 0 num_suspect_servers_stat 5) 1 num_suspect_servers_stat 7)
        sample_env zero_table)
     num_suspect_servers_stat = Inr 15"
proof -
  let ?i = "num_suspect_servers_stat"
  let ?r = "incr_on (incr_on suspect_router 0 ?i 5) 1 ?i 7"
  have s0: "init_stats busy_hdr zero_table ?i = sample_slot ''num_suspect_servers'' 0x1 True"
    by (simp add: init_stats_def busy_hdr_def)
  have sm: "summed busy_hdr (init_stats busy_hdr zero_table ?i)"
    unfolding s0 by (simp add: summed_def sample_slot_def busy_hdr_def sample_groups_def)
  have ty: "type (init_stats busy_hdr zero_table ?i) = stat_uint64"
    "data_uint64 (init_stats busy_hdr zero_table ?i) = 0"
    by (simp_all add: s0 sample_slot_def data_uint64_def)
  have once: "count_list (map fst (stat_list busy_hdr)) ?i = 1"
    by (simp add: busy_hdr_def)
  have ok: "prepares busy_hdr ?r zero_table" by (rule busy_hdr_prepares)
  from prepare_stats_at [OF ok, of exact_ops sample_env] once sm obtain tbl where
    tbl: "prepare_stats exact_ops busy_hdr ?r sample_env zero_table = Inr tbl" and
    v: "tbl ?i = summed_slot exact_ops (proxies ?r) ?i
                   (before_sum exact_ops busy_hdr ?r sample_env zero_table ?i)"
    by blast
  have b: "data (before_sum exact_ops busy_hdr ?r sample_env zero_table ?i) = 3"
    unfolding before_sum_frame(4) [OF ok] by (simp add: incr_on_def suspect_router_def)
  have t: "type (before_sum exact_ops busy_hdr ?r sample_env zero_table ?i) = stat_uint64"
    by (simp only: before_sum_shape(2) [OF ok] ty)
  have len: "(0::nat) < length (proxies suspect_router)"
    "(1::nat) < length (proxies (incr_on suspect_router 0 ?i 5))"
    by (simp_all add: suspect_router_def incr_on_def)
  have "sum_list (map (\<lambda>p. data (stats p ?i)) (proxies ?r)) =
          sum_list (map (\<lambda>p. data (stats p ?i)) (proxies suspect_router)) + 5 + 7"
    by (simp only: incr_on_sum(1) [OF len(2)] incr_on_sum(1) [OF len(1)])
  also have "sum_list (map (\<lambda>p. data (stats p ?i)) (proxies suspect_router)) = 0"
    by (simp add: suspect_router_def zero_proxy_def zero_stat_def)
  finally have sum: "sum_list (map (\<lambda>p. data (stats p ?i)) (proxies ?r)) = 12" by simp
  have "data (tbl ?i) = 3 + 12"
    by (simp only: v summed_slot_uint64 [OF t] b sum)
  then have "data (tbl ?i) = 15" by simp
  with sm ty tbl show ?thesis by (simp add: slot_uint64_def data_uint64_def)
qed

text \<open>
  C7, amended. Take a snapshot that \<^verbatim>\<open>prepare_stats\<close> returns (the suspect count is an
  unsigned slot and, unless the router has no proxy, no summed slot is a string slot),
  and a numeric slot that \<^verbatim>\<open>stat_list.h\<close> names once, that is summed over the proxies
  (aggregatable, not a rate) and that \<^verbatim>\<open>prepare_stats\<close> does not assign itself.

  \<^item> The snapshot holds the slot's initial value plus the sum of the slot's value across
    the shards: a 64-bit sum for an unsigned and for a signed slot, and for a double
    slot the initial double with the shards' doubles added to it, in the order of the
    shards.
  \<^item> After \<^verbatim>\<open>stat_incr\<close> of the slot by \<open>k\<close> on the shard \<open>S\<close> and by \<open>m\<close> on the shard \<open>T\<close>,
    which adds to the 64 bits of the slot, the next snapshot of an unsigned or signed
    slot holds \<open>k + m\<close> more; that is the slot's initial value plus \<open>k + m\<close> when the
    slot was zero on every shard. The next snapshot of a double slot is again the
    initial double with the shards' doubles added to it.
\<close>

theorem sum_policy_snapshot:
  "prepares H router stack \<and> count_list (map fst (stat_list H)) i = 1 \<and>
   summed H (init_stats H stack i) \<and> i \<notin> set computed_stats \<longrightarrow>
   (\<exists>tbl. prepare_stats D H router env stack = Inr tbl \<and>
      (type (init_stats H stack i) = stat_uint64 \<longrightarrow>
         data_uint64 (tbl i) =
           data_uint64 (init_stats H stack i) +
           sum_list (map (\<lambda>p. data_uint64 (stats p i)) (proxies router))) \<and>
      (type (init_stats H stack i) = stat_int64 \<longrightarrow>
         data_int64 (tbl i) =
           data_int64 (init_stats H stack i) +
           sum_list (map (\<lambda>p. data_int64 (stats p i)) (proxies router))) \<and>
      (type (init_stats H stack i) = stat_double \<longrightarrow>
         data (tbl i) = dbl_sum D (proxies router) i (data (init_stats H stack i))) \<and>
      (S < num_proxies router \<and> T < num_proxies router \<longrightarrow>
         (\<exists>tbl'. prepare_stats D H (incr_on (incr_on router S i k) T i m) env stack = Inr tbl' \<and>
            (type (init_stats H stack i) = stat_uint64 \<longrightarrow>
               data_uint64 (tbl' i) = data_uint64 (tbl i) + k + m) \<and>
            (type (init_stats H stack i) = stat_int64 \<longrightarrow>
               data_int64 (tbl' i) = data_int64 (tbl i) + k + m) \<and>
            (type (init_stats H stack i) = stat_double \<longrightarrow>
               data (tbl' i) =
                 dbl_sum D (proxies (incr_on (incr_on router S i k) T i m)) i
                   (data (init_stats H stack i))) \<and>
            (list_all (\<lambda>p. data (stats p i) = 0) (proxies router) \<longrightarrow>
               (type (init_stats H stack i) = stat_uint64 \<longrightarrow>
                  data_uint64 (tbl' i) = data_uint64 (init_stats H stack i) + k + m) \<and>
               (type (init_stats H stack i) = stat_int64 \<longrightarrow>
                  data_int64 (tbl' i) = data_int64 (init_stats H stack i) + k + m)))))"
proof (intro impI, elim conjE)
  assume ok: "prepares H router stack" and once: "count_list (map fst (stat_list H)) i = 1"
    and sm: "summed H (init_stats H stack i)" and nc: "i \<notin> set computed_stats"
  let ?s = "init_stats H stack i"
  let ?r' = "incr_on (incr_on router S i k) T i m"
  have ok': "prepares H ?r' stack" using ok by (simp only: prepares_incr_on)
  from prepare_stats_at [OF ok, of D env] once sm obtain tbl where
    tbl: "prepare_stats D H router env stack = Inr tbl" and
    "tbl i = summed_slot D (proxies router) i (before_sum D H router env stack i)"
    by blast
  then have v: "tbl i = summed_slot D (proxies router) i ?s"
    by (simp only: before_sum_shape(3) [OF ok nc])
  from prepare_stats_at [OF ok', of D env] once sm obtain tbl' where
    tbl': "prepare_stats D H ?r' env stack = Inr tbl'" and
    "tbl' i = summed_slot D (proxies ?r') i (before_sum D H ?r' env stack i)"
    by blast
  then have v': "tbl' i = summed_slot D (proxies ?r') i ?s"
    by (simp only: before_sum_shape(3) [OF ok' nc])
  have sums: "sum_list (map (\<lambda>p. data (stats p i)) (proxies ?r')) =
        sum_list (map (\<lambda>p. data (stats p i)) (proxies router)) + k + m"
    if "S < num_proxies router \<and> T < num_proxies router"
    using that by (simp add: num_proxies_def incr_on_sum)
  have first: "(type ?s = stat_uint64 \<longrightarrow>
         data_uint64 (tbl i) =
           data_uint64 ?s + sum_list (map (\<lambda>p. data_uint64 (stats p i)) (proxies router))) \<and>
      (type ?s = stat_int64 \<longrightarrow>
         data_int64 (tbl i) =
           data_int64 ?s + sum_list (map (\<lambda>p. data_int64 (stats p i)) (proxies router))) \<and>
      (type ?s = stat_double \<longrightarrow> data (tbl i) = dbl_sum D (proxies router) i (data ?s))"
    by (simp add: v summed_slot_def data_uint64_def data_int64_def)
  have second: "(type ?s = stat_uint64 \<longrightarrow> data_uint64 (tbl' i) = data_uint64 (tbl i) + k + m) \<and>
      (type ?s = stat_int64 \<longrightarrow> data_int64 (tbl' i) = data_int64 (tbl i) + k + m) \<and>
      (type ?s = stat_double \<longrightarrow> data (tbl' i) = dbl_sum D (proxies ?r') i (data ?s)) \<and>
      (list_all (\<lambda>p. data (stats p i) = 0) (proxies router) \<longrightarrow>
         (type ?s = stat_uint64 \<longrightarrow> data_uint64 (tbl' i) = data_uint64 ?s + k + m) \<and>
         (type ?s = stat_int64 \<longrightarrow> data_int64 (tbl' i) = data_int64 ?s + k + m))"
    if st: "S < num_proxies router \<and> T < num_proxies router"
    by (simp add: v v' summed_slot_def sums [OF st] data_uint64_def data_int64_def sum_list_zero)
  show "\<exists>tbl. prepare_stats D H router env stack = Inr tbl \<and>
      (type ?s = stat_uint64 \<longrightarrow>
         data_uint64 (tbl i) =
           data_uint64 ?s + sum_list (map (\<lambda>p. data_uint64 (stats p i)) (proxies router))) \<and>
      (type ?s = stat_int64 \<longrightarrow>
         data_int64 (tbl i) =
           data_int64 ?s + sum_list (map (\<lambda>p. data_int64 (stats p i)) (proxies router))) \<and>
      (type ?s = stat_double \<longrightarrow> data (tbl i) = dbl_sum D (proxies router) i (data ?s)) \<and>
      (S < num_proxies router \<and> T < num_proxies router \<longrightarrow>
         (\<exists>tbl'. prepare_stats D H ?r' env stack = Inr tbl' \<and>
            (type ?s = stat_uint64 \<longrightarrow> data_uint64 (tbl' i) = data_uint64 (tbl i) + k + m) \<and>
            (type ?s = stat_int64 \<longrightarrow> data_int64 (tbl' i) = data_int64 (tbl i) + k + m) \<and>
            (type ?s = stat_double \<longrightarrow> data (tbl' i) = dbl_sum D (proxies ?r') i (data ?s)) \<and>
            (list_all (\<lambda>p. data (stats p i) = 0) (proxies router) \<longrightarrow>
               (type ?s = stat_uint64 \<longrightarrow> data_uint64 (tbl' i) = data_uint64 ?s + k + m) \<and>
               (type ?s = stat_int64 \<longrightarrow> data_int64 (tbl' i) = data_int64 ?s + k + m))))"
    using tbl tbl' first second by blast
qed

theorem sum_policy_snapshot_witness:
  "prepares busy_hdr suspect_router zero_table \<and>
   count_list (map fst (stat_list busy_hdr)) (other_stat 1) = 1 \<and>
   summed busy_hdr (init_stats busy_hdr zero_table (other_stat 1)) \<and>
   other_stat 1 \<notin> set computed_stats \<and>
   type (init_stats busy_hdr zero_table (other_stat 1)) = stat_int64 \<and>
   data_int64 (init_stats busy_hdr zero_table (other_stat 1)) = 0 \<and>
   (0::nat) < num_proxies suspect_router \<and> (1::nat) < num_proxies suspect_router \<and>
   list_all (\<lambda>p. data (stats p (other_stat 1)) = 0) (proxies suspect_router) \<and>
   (\<exists>tbl'. prepare_stats exact_ops busy_hdr
             (incr_on (incr_on suspect_router 0 (other_stat 1) 5) 1 (other_stat 1) 7)
             sample_env zero_table = Inr tbl' \<and>
          data_int64 (tbl' (other_stat 1)) = 12)"
proof -
  let ?i = "other_stat 1"
  let ?s = "init_stats busy_hdr zero_table ?i"
  let ?r = "suspect_router"
  let ?r' = "incr_on (incr_on suspect_router 0 ?i 5) 1 ?i 7"
  have s0: "?s = signed_slot ''signed_count'' 0x204 True"
    by (simp add: init_stats_def busy_hdr_def)
  have h1: "summed busy_hdr ?s"
    unfolding s0 by (simp add: busy_hdr_def summed_def signed_slot_def sample_slot_def sample_groups_def)
  have h2: "count_list (map fst (stat_list busy_hdr)) ?i = 1 \<and> ?i \<notin> set computed_stats"
    by (simp add: busy_hdr_def computed_stats_def)
  have h: "prepares busy_hdr ?r zero_table \<and>
      count_list (map fst (stat_list busy_hdr)) ?i = 1 \<and> summed busy_hdr ?s \<and>
      ?i \<notin> set computed_stats"
    using busy_hdr_prepares [of ?r] h1 h2 by (intro conjI) simp_all
  have t: "type ?s = stat_int64" "data_int64 ?s = 0"
    unfolding s0 by (simp_all add: signed_slot_def sample_slot_def data_int64_def)
  have n: "(0::nat) < num_proxies ?r \<and> (1::nat) < num_proxies ?r"
    by (simp add: num_proxies_def suspect_router_def)
  have z: "list_all (\<lambda>p. data (stats p ?i) = 0) (proxies ?r)"
    by (simp add: suspect_router_def zero_proxy_def zero_stat_def)
  note th = sum_policy_snapshot [of busy_hdr ?r zero_table ?i exact_ops sample_env
      0 1 5 7, THEN mp, OF h]
  then obtain tbl where
    T: "prepare_stats exact_ops busy_hdr ?r sample_env zero_table = Inr tbl \<and>
      (type ?s = stat_uint64 \<longrightarrow>
         data_uint64 (tbl ?i) =
           data_uint64 ?s + sum_list (map (\<lambda>p. data_uint64 (stats p ?i)) (proxies ?r))) \<and>
      (type ?s = stat_int64 \<longrightarrow>
         data_int64 (tbl ?i) =
           data_int64 ?s + sum_list (map (\<lambda>p. data_int64 (stats p ?i)) (proxies ?r))) \<and>
      (type ?s = stat_double \<longrightarrow> data (tbl ?i) = dbl_sum exact_ops (proxies ?r) ?i (data ?s)) \<and>
      (0 < num_proxies ?r \<and> 1 < num_proxies ?r \<longrightarrow>
         (\<exists>tbl'. prepare_stats exact_ops busy_hdr ?r' sample_env zero_table = Inr tbl' \<and>
            (type ?s = stat_uint64 \<longrightarrow> data_uint64 (tbl' ?i) = data_uint64 (tbl ?i) + 5 + 7) \<and>
            (type ?s = stat_int64 \<longrightarrow> data_int64 (tbl' ?i) = data_int64 (tbl ?i) + 5 + 7) \<and>
            (type ?s = stat_double \<longrightarrow>
               data (tbl' ?i) = dbl_sum exact_ops (proxies ?r') ?i (data ?s)) \<and>
            (list_all (\<lambda>p. data (stats p ?i) = 0) (proxies ?r) \<longrightarrow>
               (type ?s = stat_uint64 \<longrightarrow> data_uint64 (tbl' ?i) = data_uint64 ?s + 5 + 7) \<and>
               (type ?s = stat_int64 \<longrightarrow> data_int64 (tbl' ?i) = data_int64 ?s + 5 + 7))))" ..
  note b = T [THEN conjunct2, THEN conjunct2, THEN conjunct2, THEN conjunct2]
  from b n have "\<exists>tbl'. prepare_stats exact_ops busy_hdr ?r' sample_env zero_table = Inr tbl' \<and>
            (type ?s = stat_uint64 \<longrightarrow> data_uint64 (tbl' ?i) = data_uint64 (tbl ?i) + 5 + 7) \<and>
            (type ?s = stat_int64 \<longrightarrow> data_int64 (tbl' ?i) = data_int64 (tbl ?i) + 5 + 7) \<and>
            (type ?s = stat_double \<longrightarrow>
               data (tbl' ?i) = dbl_sum exact_ops (proxies ?r') ?i (data ?s)) \<and>
            (list_all (\<lambda>p. data (stats p ?i) = 0) (proxies ?r) \<longrightarrow>
               (type ?s = stat_uint64 \<longrightarrow> data_uint64 (tbl' ?i) = data_uint64 ?s + 5 + 7) \<and>
               (type ?s = stat_int64 \<longrightarrow> data_int64 (tbl' ?i) = data_int64 ?s + 5 + 7))"
    by (rule mp)
  then obtain tbl' where
    p: "prepare_stats exact_ops busy_hdr ?r' sample_env zero_table = Inr tbl'" and
    q: "list_all (\<lambda>p. data (stats p ?i) = 0) (proxies ?r) \<longrightarrow>
               (type ?s = stat_uint64 \<longrightarrow> data_uint64 (tbl' ?i) = data_uint64 ?s + 5 + 7) \<and>
               (type ?s = stat_int64 \<longrightarrow> data_int64 (tbl' ?i) = data_int64 ?s + 5 + 7)"
    by (elim exE conjE)
  from q z t(1) have "data_int64 (tbl' ?i) = data_int64 ?s + 5 + 7" by blast
  then have "data_int64 (tbl' ?i) = 12" by (simp only: t(2)) simp
  with p have "\<exists>tbl'. prepare_stats exact_ops busy_hdr ?r' sample_env zero_table = Inr tbl' \<and>
          data_int64 (tbl' ?i) = 12"
    by blast
  with h t n z show ?thesis by blast
qed

text \<open>
  C10, as stated, fails: when \<^verbatim>\<open>fscanf\<close> converts two fields and then fails, it has
  stored them in the record, and the snapshot reports 7 minor and 3 major page faults.
\<close>

theorem proc_stat_counterexample:
  "proc_read_failed partial_env \<and>
   get_proc_stat exact_ops partial_env =
     (- 1, \<lparr> num_minor_faults = 7, num_major_faults = 3, user_time_sec = Finite 0,
             system_time_sec = Finite 0, vsize = 0, rss = 0 \<rparr>) \<and>
   slot_uint64 (prepare_stats exact_ops sample_hdr (router_of [zero_proxy]) partial_env zero_table)
     ps_num_minor_faults_stat = Inr 7 \<and>
   slot_uint64 (prepare_stats exact_ops sample_hdr (router_of [zero_proxy]) partial_env zero_table)
     ps_num_major_faults_stat = Inr 3"
proof -
  have f: "proc_read_failed partial_env"
    by (simp add: proc_read_failed_def partial_env_def)
  have g: "get_proc_stat exact_ops partial_env =
     (- 1, \<lparr> num_minor_faults = 7, num_major_faults = 3, user_time_sec = Finite 0,
             system_time_sec = Finite 0, vsize = 0, rss = 0 \<rparr>)"
    unfolding get_proc_stat_failed [OF f, of exact_ops]
    by (simp add: stored_def partial_env_def exact_ops_def)
  have ns: "list_all (\<lambda>n. \<not> summed_in sample_hdr zero_table n) proc_stats"
    by (simp add: proc_stats_def summed_in_def summed_def init_stats_def sample_hdr_def
        sample_slot_def zero_table_def zero_stat_def)
  from prepare_stats_proc [OF sample_hdr_prepares ns, of exact_ops "router_of [zero_proxy]" partial_env]
  obtain tbl where
    "prepare_stats exact_ops sample_hdr (router_of [zero_proxy]) partial_env zero_table = Inr tbl"
    "data (tbl ps_num_minor_faults_stat) = num_minor_faults (snd (get_proc_stat exact_ops partial_env))"
    "data (tbl ps_num_major_faults_stat) = num_major_faults (snd (get_proc_stat exact_ops partial_env))"
    by blast
  with f g show ?thesis by (simp add: slot_uint64_def data_uint64_def)
qed

text \<open>
  C10, amended. \<^verbatim>\<open>get_proc_stat\<close> sets every field of its record to zero first and
  \<^verbatim>\<open>prepare_stats\<close> does not read its status. Take a snapshot that \<^verbatim>\<open>prepare_stats\<close>
  returns (the suspect count is an unsigned slot and, unless the router has no proxy,
  no summed slot is a string slot), with none of the six process slots summed over the
  proxies (a slot of \<^verbatim>\<open>stat_list.h\<close> that is aggregatable and not a rate has the
  shards' values added to it). After a failed read the two CPU-time slots hold the
  bits of the double zero and the resident size is zero; the minor faults, the major faults and the
  virtual size are the first, second and fifth field if \<^verbatim>\<open>fscanf\<close> had stored that
  many, and zero otherwise. All six are zero when the file cannot be opened or no field
  is converted.
\<close>

theorem proc_stat_failure:
  "prepares H router stack \<and> list_all (\<lambda>n. \<not> summed_in H stack n) proc_stats \<and>
   proc_read_failed env \<longrightarrow>
   (\<exists>tbl. prepare_stats D H router env stack = Inr tbl \<and>
      data (tbl ps_user_time_sec_stat) = d_bits D (d_of_int D 0) \<and>
      data (tbl ps_system_time_sec_stat) = d_bits D (d_of_int D 0) \<and>
      data_uint64 (tbl ps_rss_stat) = 0 \<and>
      data_uint64 (tbl ps_num_minor_faults_stat) = stored env 0 \<and>
      data_uint64 (tbl ps_num_major_faults_stat) = stored env 1 \<and>
      data_uint64 (tbl ps_vsize_stat) = stored env 4 \<and>
      (proc_stat env = fopen_failed \<or> proc_stat env = fscanf_stored [] \<longrightarrow>
         data_uint64 (tbl ps_num_minor_faults_stat) = 0 \<and>
         data_uint64 (tbl ps_num_major_faults_stat) = 0 \<and>
         data_uint64 (tbl ps_vsize_stat) = 0))"
proof (intro impI, elim conjE)
  assume ok: "prepares H router stack"
    and ns: "list_all (\<lambda>n. \<not> summed_in H stack n) proc_stats"
    and failed: "proc_read_failed env"
  from prepare_stats_proc [OF ok ns, of D env] obtain tbl where
    tbl: "prepare_stats D H router env stack = Inr tbl" and
    v: "data (tbl ps_num_minor_faults_stat) = num_minor_faults (snd (get_proc_stat D env))"
      "data (tbl ps_num_major_faults_stat) = num_major_faults (snd (get_proc_stat D env))"
      "data (tbl ps_user_time_sec_stat) = d_bits D (user_time_sec (snd (get_proc_stat D env)))"
      "data (tbl ps_system_time_sec_stat) = d_bits D (system_time_sec (snd (get_proc_stat D env)))"
      "data (tbl ps_rss_stat) = rss (snd (get_proc_stat D env))"
      "data (tbl ps_vsize_stat) = vsize (snd (get_proc_stat D env))"
    by blast
  have z: "stored env k = 0" if "proc_stat env = fopen_failed \<or> proc_stat env = fscanf_stored []" for k
    using that by (auto simp: stored_def)
  show "\<exists>tbl. prepare_stats D H router env stack = Inr tbl \<and>
      data (tbl ps_user_time_sec_stat) = d_bits D (d_of_int D 0) \<and>
      data (tbl ps_system_time_sec_stat) = d_bits D (d_of_int D 0) \<and>
      data_uint64 (tbl ps_rss_stat) = 0 \<and>
      data_uint64 (tbl ps_num_minor_faults_stat) = stored env 0 \<and>
      data_uint64 (tbl ps_num_major_faults_stat) = stored env 1 \<and>
      data_uint64 (tbl ps_vsize_stat) = stored env 4 \<and>
      (proc_stat env = fopen_failed \<or> proc_stat env = fscanf_stored [] \<longrightarrow>
         data_uint64 (tbl ps_num_minor_faults_stat) = 0 \<and>
         data_uint64 (tbl ps_num_major_faults_stat) = 0 \<and>
         data_uint64 (tbl ps_vsize_stat) = 0)"
    by (rule exI [of _ tbl])
      (simp add: tbl v get_proc_stat_failed [OF failed] z data_uint64_def)
qed

theorem proc_stat_failure_witness:
  "prepares busy_hdr suspect_router zero_table \<and>
   list_all (\<lambda>n. \<not> summed_in busy_hdr zero_table n) proc_stats \<and>
   proc_read_failed sample_env \<and> proc_stat sample_env = fopen_failed \<and>
   (\<exists>tbl. prepare_stats exact_ops busy_hdr suspect_router sample_env zero_table = Inr tbl \<and>
      data (tbl ps_user_time_sec_stat) = 0 \<and>
      data (tbl ps_system_time_sec_stat) = 0 \<and>
      data_uint64 (tbl ps_rss_stat) = 0 \<and>
      data_uint64 (tbl ps_num_minor_faults_stat) = 0 \<and>
      data_uint64 (tbl ps_num_major_faults_stat) = 0 \<and>
      data_uint64 (tbl ps_vsize_stat) = 0)"
proof -
  have h: "prepares busy_hdr suspect_router zero_table \<and>
      list_all (\<lambda>n. \<not> summed_in busy_hdr zero_table n) proc_stats \<and> proc_read_failed sample_env"
    by (simp add: busy_hdr_prepares proc_read_failed_def sample_env_def)
      (simp add: proc_stats_def summed_in_def summed_def init_stats_def busy_hdr_def
        sample_slot_def zero_table_def zero_stat_def)
  have o: "proc_stat sample_env = fopen_failed" by (simp add: sample_env_def)
  have d: "d_bits exact_ops (d_of_int exact_ops 0) = 0" by (simp add: exact_ops_def)
  from proc_stat_failure [of busy_hdr suspect_router zero_table sample_env exact_ops] h o
  obtain tbl where
    "prepare_stats exact_ops busy_hdr suspect_router sample_env zero_table = Inr tbl"
    "data (tbl ps_user_time_sec_stat) = d_bits exact_ops (d_of_int exact_ops 0)"
    "data (tbl ps_system_time_sec_stat) = d_bits exact_ops (d_of_int exact_ops 0)"
    "data_uint64 (tbl ps_rss_stat) = 0"
    "data_uint64 (tbl ps_num_minor_faults_stat) = 0"
    "data_uint64 (tbl ps_num_major_faults_stat) = 0"
    "data_uint64 (tbl ps_vsize_stat) = 0"
    by blast
  with h o d show ?thesis by auto
qed

end
